theory Spec2Isabelle
  imports Complex_Main
begin

section \<open>Numbers\<close>

text \<open>
  JavaScript numbers are IEEE 754 doubles. Where rounding does not decide a claim they are
  modelled as mathematical reals (no rounding error, no NaN, no infinities); where the
  source can divide zero by zero the model says so at that place. \<open>Math.round\<close> rounds
  half up, towards plus infinity.
\<close>

definition Math_round :: "real \<Rightarrow> int" where
  "Math_round v = \<lfloor>v + 1 / 2\<rfloor>"

text \<open>
  Where rounding decides a claim (the advance width of \<open>templateNormalize\<close>) the
  arithmetic is that of doubles. A \<open>number\<close> is a finite double, an infinity or NaN. An
  operation on finite operands returns the exact result rounded to the nearest double,
  ties to the even significand (\<open>fl\<close>): for \<open>2^e \<le> |x| < 2^(e+1)\<close> the doubles are the
  multiples of \<open>2^(e-52)\<close>, and of \<open>2^(-1074)\<close> below \<open>2^(-1022)\<close>; a rounded value
  beyond the largest double is an infinity. The sign of a zero is not modelled: a zero
  divisor counts as \<open>+0\<close>. \<open>Math.round\<close> of a finite double is exact.
\<close>

datatype number = Finite real | PosInf | NegInf | NaN

definition pow2 :: "int \<Rightarrow> real" where
  "pow2 k = (if 0 \<le> k then 2 ^ nat k else 1 / 2 ^ nat (- k))"

definition expo :: "real \<Rightarrow> int" where
  "expo x = max \<lfloor>log 2 \<bar>x\<bar>\<rfloor> (- 1022)"

definition quantum :: "real \<Rightarrow> real" where
  "quantum x = pow2 (expo x - 52)"

definition roundHalfEven :: "real \<Rightarrow> int" where
  "roundHalfEven y =
    (let f = \<lfloor>y\<rfloor>
     in if y - real_of_int f < 1 / 2 then f
        else if 1 / 2 < y - real_of_int f then f + 1
        else if even f then f else f + 1)"

definition nearestDouble :: "real \<Rightarrow> real" where
  "nearestDouble x =
    (if x = 0 then 0 else real_of_int (roundHalfEven (x / quantum x)) * quantum x)"

definition MAX_VALUE :: real where
  "MAX_VALUE = (2 ^ 53 - 1) * 2 ^ 971"

definition fl :: "real \<Rightarrow> number" where
  "fl x =
    (let r = nearestDouble x
     in if MAX_VALUE < r then PosInf else if r < - MAX_VALUE then NegInf else Finite r)"

fun num_neg :: "number \<Rightarrow> number" where
  "num_neg (Finite a) = Finite (- a)"
| "num_neg PosInf = NegInf"
| "num_neg NegInf = PosInf"
| "num_neg NaN = NaN"

fun num_add :: "number \<Rightarrow> number \<Rightarrow> number" where
  "num_add (Finite a) (Finite b) = fl (a + b)"
| "num_add NaN _ = NaN"
| "num_add _ NaN = NaN"
| "num_add PosInf NegInf = NaN"
| "num_add NegInf PosInf = NaN"
| "num_add PosInf _ = PosInf"
| "num_add _ PosInf = PosInf"
| "num_add NegInf _ = NegInf"
| "num_add _ NegInf = NegInf"

definition num_sub :: "number \<Rightarrow> number \<Rightarrow> number" where
  "num_sub a b = num_add a (num_neg b)"

definition signed_inf :: "bool \<Rightarrow> number" where
  "signed_inf positive = (if positive then PosInf else NegInf)"

fun num_mul :: "number \<Rightarrow> number \<Rightarrow> number" where
  "num_mul (Finite a) (Finite b) = fl (a * b)"
| "num_mul NaN _ = NaN"
| "num_mul _ NaN = NaN"
| "num_mul (Finite a) PosInf = (if a = 0 then NaN else signed_inf (0 < a))"
| "num_mul (Finite a) NegInf = (if a = 0 then NaN else signed_inf (a < 0))"
| "num_mul PosInf (Finite b) = (if b = 0 then NaN else signed_inf (0 < b))"
| "num_mul NegInf (Finite b) = (if b = 0 then NaN else signed_inf (b < 0))"
| "num_mul PosInf PosInf = PosInf"
| "num_mul NegInf NegInf = PosInf"
| "num_mul PosInf NegInf = NegInf"
| "num_mul NegInf PosInf = NegInf"

fun num_div :: "number \<Rightarrow> number \<Rightarrow> number" where
  "num_div (Finite a) (Finite b) =
    (if b = 0 then (if a = 0 then NaN else signed_inf (0 < a)) else fl (a / b))"
| "num_div NaN _ = NaN"
| "num_div _ NaN = NaN"
| "num_div (Finite a) _ = Finite 0"
| "num_div PosInf (Finite b) = signed_inf (0 \<le> b)"
| "num_div NegInf (Finite b) = signed_inf (b < 0)"
| "num_div _ _ = NaN"

fun Math_round_number :: "number \<Rightarrow> number" where
  "Math_round_number (Finite x) = Finite (real_of_int \<lfloor>x + 1 / 2\<rfloor>)"
| "Math_round_number n = n"

section \<open>Template geometry (lib/template/TemplateDefinition.ts)\<close>

datatype PageSize = letter | a4

record TemplateConfig =
  pageSize :: PageSize
  cellsPerRow :: real
  rowsPerPage :: real
  dpi :: real

record Pt =
  px :: real
  py :: real

record Margins =
  m_top :: real
  m_bottom :: real
  m_left :: real
  m_right :: real

record Markers =
  mk_topLeft :: Pt
  mk_topRight :: Pt
  mk_bottomLeft :: Pt
  mk_bottomRight :: Pt

record Grid =
  g_cellsPerRow :: real
  g_rowsPerPage :: real
  g_cellWidth :: real
  g_cellHeight :: real
  g_startX :: real
  g_startY :: real

record CellGuides =
  cg_labelTop :: real
  cg_baseline :: real
  cg_xHeight :: real
  cg_capHeight :: real
  cg_descender :: real

record TemplateCoordinates =
  pageWidth :: real
  pageHeight :: real
  margins :: Margins
  markers :: Markers
  grid :: Grid
  cellGuides :: CellGuides

fun PAGE_SIZES_MM :: "PageSize \<Rightarrow> real \<times> real" where
  "PAGE_SIZES_MM letter = (2159 / 10, 2794 / 10)"
| "PAGE_SIZES_MM a4 = (210, 297)"

definition MARGINS_MM :: Margins where
  "MARGINS_MM = \<lparr>m_top = 25, m_bottom = 20, m_left = 15, m_right = 15\<rparr>"

definition MARKER_SIZE_MM :: real where
  "MARKER_SIZE_MM = 8"

definition MARKER_OFFSET_MM :: real where
  "MARKER_OFFSET_MM = 2"

definition mmToPixels :: "real \<Rightarrow> real \<Rightarrow> real" where
  "mmToPixels mm d = real_of_int (Math_round ((mm / (254 / 10)) * d))"

text \<open>
  The local constant \<open>markerSize\<close> of \<open>getTemplateCoordinates\<close>: the side of a marker
  square at coordinate-compute time.
\<close>

definition getTemplateCoordinates_markerSize :: "TemplateConfig \<Rightarrow> real" where
  "getTemplateCoordinates_markerSize config = mmToPixels MARKER_SIZE_MM (dpi config)"

definition getTemplateCoordinates :: "TemplateConfig \<Rightarrow> TemplateCoordinates" where
  "getTemplateCoordinates config =
    (let pageMm = PAGE_SIZES_MM (pageSize config);
         pageWidth = mmToPixels (fst pageMm) (dpi config);
         pageHeight = mmToPixels (snd pageMm) (dpi config);
         margins = \<lparr>m_top = mmToPixels (m_top MARGINS_MM) (dpi config),
                    m_bottom = mmToPixels (m_bottom MARGINS_MM) (dpi config),
                    m_left = mmToPixels (m_left MARGINS_MM) (dpi config),
                    m_right = mmToPixels (m_right MARGINS_MM) (dpi config)\<rparr>;
         contentWidth = pageWidth - m_left margins - m_right margins;
         contentHeight = pageHeight - m_top margins - m_bottom margins;
         cellWidth = contentWidth / cellsPerRow config;
         cellHeight = contentHeight / rowsPerPage config;
         markerSize = getTemplateCoordinates_markerSize config;
         markerOffset = mmToPixels MARKER_OFFSET_MM (dpi config);
         markerHalfSize = markerSize / 2;
         markers = \<lparr>
           mk_topLeft = \<lparr>px = m_left margins - markerOffset - markerHalfSize,
                         py = m_top margins - markerOffset - markerHalfSize\<rparr>,
           mk_topRight = \<lparr>px = pageWidth - m_right margins + markerOffset + markerHalfSize,
                          py = m_top margins - markerOffset - markerHalfSize\<rparr>,
           mk_bottomLeft = \<lparr>px = m_left margins - markerOffset - markerHalfSize,
                            py = pageHeight - m_bottom margins + markerOffset + markerHalfSize\<rparr>,
           mk_bottomRight = \<lparr>px = pageWidth - m_right margins + markerOffset + markerHalfSize,
                             py = pageHeight - m_bottom margins + markerOffset + markerHalfSize\<rparr>\<rparr>;
         cellGuides = \<lparr>cg_labelTop = cellHeight * (18 / 100),
                       cg_baseline = cellHeight * (75 / 100),
                       cg_xHeight = cellHeight * (45 / 100),
                       cg_capHeight = cellHeight * (25 / 100),
                       cg_descender = cellHeight * (9 / 10)\<rparr>
     in \<lparr>pageWidth = pageWidth, pageHeight = pageHeight, margins = margins,
         markers = markers,
         grid = \<lparr>g_cellsPerRow = cellsPerRow config, g_rowsPerPage = rowsPerPage config,
                 g_cellWidth = cellWidth, g_cellHeight = cellHeight,
                 g_startX = m_left margins, g_startY = m_top margins\<rparr>,
         cellGuides = cellGuides\<rparr>)"

definition DEFAULT_TEMPLATE_CONFIG :: TemplateConfig where
  "DEFAULT_TEMPLATE_CONFIG = \<lparr>pageSize = letter, cellsPerRow = 8, rowsPerPage = 10, dpi = 150\<rparr>"

section \<open>Blank template renderer (lib/template/BlankTemplateRenderer.ts)\<close>

text \<open>
  The canvas is modelled by the list of rectangle operations issued on it, in order:
  \<open>strokeRect x y w h\<close> and \<open>fillRect x y w h\<close>.
\<close>

datatype CanvasOp = StrokeRect real real real real | FillRect real real real real

definition drawMarkers_markerSize :: "TemplateCoordinates \<Rightarrow> real" where
  "drawMarkers_markerSize coords = real_of_int (Math_round (pageWidth coords * (1 / 100)))"

definition drawMarker :: "real \<Rightarrow> real \<Rightarrow> real \<Rightarrow> CanvasOp list" where
  "drawMarker markerSize cx cy =
    (let innerSize = markerSize / 2;
         x = cx - markerSize / 2;
         y = cy - markerSize / 2;
         innerOffset = (markerSize - innerSize) / 2
     in [StrokeRect x y markerSize markerSize,
         FillRect (x + innerOffset) (y + innerOffset) innerSize innerSize])"

definition drawMarkers :: "TemplateCoordinates \<Rightarrow> CanvasOp list" where
  "drawMarkers coords =
    (let markerSize = drawMarkers_markerSize coords
     in drawMarker markerSize (px (mk_topLeft (markers coords))) (py (mk_topLeft (markers coords)))
      @ drawMarker markerSize (px (mk_topRight (markers coords))) (py (mk_topRight (markers coords)))
      @ drawMarker markerSize (px (mk_bottomLeft (markers coords))) (py (mk_bottomLeft (markers coords)))
      @ drawMarker markerSize (px (mk_bottomRight (markers coords))) (py (mk_bottomRight (markers coords))))"

fun strokeSides :: "CanvasOp list \<Rightarrow> (real \<times> real) list" where
  "strokeSides [] = []"
| "strokeSides (StrokeRect x y w h # ops) = (w, h) # strokeSides ops"
| "strokeSides (FillRect x y w h # ops) = strokeSides ops"

section \<open>Baseline-anchored normalisation (templateNormalize)\<close>

record Bounds =
  b_x :: real
  b_y :: real
  b_width :: real
  b_height :: real

record TemplateGuides =
  baseline :: real
  capHeight :: real
  xHeight :: real
  descender :: real
  writingAreaHeight :: real

definition FONT_BASELINE :: real where
  "FONT_BASELINE = 0"

definition FONT_CAP_HEIGHT :: real where
  "FONT_CAP_HEIGHT = 700"

definition LEFT_SIDE_BEARING :: real where
  "LEFT_SIDE_BEARING = 10"

definition RIGHT_SIDE_BEARING :: real where
  "RIGHT_SIDE_BEARING = 10"

record NormalizeResult =
  normalizedPath :: string
  advanceWidth :: number

text \<open>
  \<open>templateNormalize\<close>, in double arithmetic; the bounding box and the guides are finite
  doubles. The path string is re-serialised by regular expressions and \<open>toFixed\<close>; that
  text transformation is the parameter \<open>transformPaths\<close>, which receives the point
  transformation (both the JSON and the legacy branch return the same \<open>advanceWidth\<close>).
\<close>

definition templateNormalize ::
  "((number \<times> number \<Rightarrow> number \<times> number) \<Rightarrow> string \<Rightarrow> string) \<Rightarrow> string \<Rightarrow> Bounds
    \<Rightarrow> TemplateGuides \<Rightarrow> NormalizeResult" where
  "templateNormalize transformPaths svgPath pathBounds guides =
    (if svgPath = [] \<or> b_width pathBounds = 0 \<or> b_height pathBounds = 0
     then \<lparr>normalizedPath = [], advanceWidth = Finite 0\<rparr>
     else
       let templateCapToBaseline = num_sub (Finite (baseline guides)) (Finite (capHeight guides));
           fontCapToBaseline = num_sub (Finite FONT_CAP_HEIGHT) (Finite FONT_BASELINE);
           scale = num_div fontCapToBaseline templateCapToBaseline;
           baselineOffset =
             num_mul (num_sub (Finite (baseline guides)) (Finite (b_y pathBounds))) scale;
           glyphWidthInFontUnits = num_mul (Finite (b_width pathBounds)) scale;
           advance = Math_round_number
             (num_add (num_add (Finite LEFT_SIDE_BEARING) glyphWidthInFontUnits)
                (Finite RIGHT_SIDE_BEARING));
           transformPoint = (\<lambda>(x, y). (num_add (num_mul x scale) (Finite LEFT_SIDE_BEARING),
                                          num_sub baselineOffset (num_mul y scale)))
       in \<lparr>normalizedPath = transformPaths transformPoint svgPath, advanceWidth = advance\<rparr>)"

text \<open>A number that is plus infinity or a finite value not below \<open>v\<close>.\<close>

definition atLeastNumber :: "real \<Rightarrow> number \<Rightarrow> bool" where
  "atLeastNumber v n = (case n of Finite r \<Rightarrow> v \<le> r | PosInf \<Rightarrow> True | _ \<Rightarrow> False)"

section \<open>Path conversion and winding (lib/canvas/PathConverter.ts)\<close>

text \<open>
  A parsed path command, with the optional fields of the source's interface. The strings
  of the \<open>{outlines, holes}\<close> envelope are parsed by a third-party parser
  (\<open>makeAbsolute (parseSVG s)\<close>); every path is represented by the list of absolute
  commands it parses to. \<open>makeAbsolute\<close> gives every command the coordinates of its end
  point; for a closing \<open>Z\<close> these are the start point of its subpath. The commands that
  \<open>reverseContour\<close> builds itself end with a \<open>Z\<close> without coordinates.
\<close>

record PathCommand =
  code :: string
  c_x :: "real option"
  c_y :: "real option"
  c_x1 :: "real option"
  c_y1 :: "real option"
  c_x2 :: "real option"
  c_y2 :: "real option"

definition cross :: "Pt \<Rightarrow> Pt \<Rightarrow> real" where
  "cross p q = px p * py q - px q * py p"

definition calculateSignedArea :: "Pt list \<Rightarrow> real" where
  "calculateSignedArea points =
    (if length points < 3 then 0
     else foldl (\<lambda>area i. let j = (i + 1) mod length points
                           in area + px (points ! i) * py (points ! j)
                                   - px (points ! j) * py (points ! i))
            0 [0..<length points] / 2)"

fun extractPointsFromCommands :: "PathCommand list \<Rightarrow> Pt list" where
  "extractPointsFromCommands [] = []"
| "extractPointsFromCommands (cmd # cmds) =
    (case (c_x cmd, c_y cmd) of
       (Some x, Some y) \<Rightarrow> \<lparr>px = x, py = y\<rparr> # extractPointsFromCommands cmds
     | _ \<Rightarrow> extractPointsFromCommands cmds)"

definition mkCmd :: "string \<Rightarrow> real option \<Rightarrow> real option \<Rightarrow> PathCommand" where
  "mkCmd k x y = \<lparr>code = k, c_x = x, c_y = y, c_x1 = None, c_y1 = None, c_x2 = None, c_y2 = None\<rparr>"

text \<open>
  One turn of the backwards loop of \<open>reverseContour\<close>: what is pushed for \<open>cmd\<close>, given
  the first \<open>M\<close> command and the command before it.
\<close>

definition reverseStep :: "PathCommand \<Rightarrow> PathCommand \<Rightarrow> PathCommand \<Rightarrow> PathCommand list" where
  "reverseStep firstM prevCmd cmd =
    (let prevPoint = (if c_x prevCmd \<noteq> None \<and> c_y prevCmd \<noteq> None
                      then (c_x prevCmd, c_y prevCmd) else (c_x firstM, c_y firstM))
     in if code cmd = ''L'' then [mkCmd ''L'' (fst prevPoint) (snd prevPoint)]
        else if code cmd = ''C'' then
          [\<lparr>code = ''C'', c_x = fst prevPoint, c_y = snd prevPoint,
            c_x1 = c_x2 cmd, c_y1 = c_y2 cmd, c_x2 = c_x1 cmd, c_y2 = c_y1 cmd\<rparr>]
        else if code cmd = ''Q'' then
          [\<lparr>code = ''Q'', c_x = fst prevPoint, c_y = snd prevPoint,
            c_x1 = c_x1 cmd, c_y1 = c_y1 cmd, c_x2 = None, c_y2 = None\<rparr>]
        else [])"

definition reverseContour :: "PathCommand list \<Rightarrow> PathCommand list" where
  "reverseContour commands =
    (if commands = [] then commands
     else case find (\<lambda>c. code c = ''M'') commands of
       None \<Rightarrow> commands
     | Some firstM \<Rightarrow>
         let lastPoint = foldl (\<lambda>lp cmd. if c_x cmd \<noteq> None \<and> c_y cmd \<noteq> None
                                          then (c_x cmd, c_y cmd) else lp)
                           (c_x firstM, c_y firstM) commands
         in mkCmd ''M'' (fst lastPoint) (snd lastPoint)
            # concat (map (\<lambda>i. reverseStep firstM
                                   (if 0 < i then commands ! (i - 1) else firstM) (commands ! i))
                        (rev [0..<length commands]))
            @ [mkCmd ''Z'' None None])"

text \<open>\<open>splitIntoContours\<close>: the loop state is the finished contours and the current one.\<close>

definition splitStep ::
  "PathCommand list list \<times> PathCommand list \<Rightarrow> PathCommand \<Rightarrow> PathCommand list list \<times> PathCommand list" where
  "splitStep st cmd =
    (let (contours, current) = st;
         (contours, current) = (if code cmd = ''M'' \<and> current \<noteq> []
                                then (contours @ [current], []) else (contours, current));
         current = current @ [cmd]
     in if code cmd = ''Z'' \<or> code cmd = ''z''
        then (contours @ [current], []) else (contours, current))"

definition splitIntoContours :: "PathCommand list \<Rightarrow> PathCommand list list" where
  "splitIntoContours commands =
    (let (contours, current) = foldl splitStep ([], []) commands;
         contours = (if current \<noteq> [] then contours @ [current] else contours)
     in filter (\<lambda>c. c \<noteq> []) contours)"

text \<open>The commands of the opentype.js path that is built, coordinates rounded.\<close>

datatype OtCmd =
  MoveTo int int
| LineTo int int
| CurveTo int int int int int int
| QuadTo int int int int
| ClosePath

definition emitCommand :: "PathCommand \<Rightarrow> OtCmd list" where
  "emitCommand cmd =
    (if code cmd = ''M'' then
       (case (c_x cmd, c_y cmd) of
          (Some x, Some y) \<Rightarrow> [MoveTo (Math_round x) (Math_round y)] | _ \<Rightarrow> [])
     else if code cmd = ''L'' then
       (case (c_x cmd, c_y cmd) of
          (Some x, Some y) \<Rightarrow> [LineTo (Math_round x) (Math_round y)] | _ \<Rightarrow> [])
     else if code cmd = ''C'' then
       (case (c_x cmd, c_y cmd, c_x1 cmd, c_y1 cmd, c_x2 cmd, c_y2 cmd) of
          (Some x, Some y, Some x1, Some y1, Some x2, Some y2) \<Rightarrow>
            [CurveTo (Math_round x1) (Math_round y1) (Math_round x2) (Math_round y2)
               (Math_round x) (Math_round y)]
        | _ \<Rightarrow> [])
     else if code cmd = ''Q'' then
       (case (c_x cmd, c_y cmd, c_x1 cmd, c_y1 cmd) of
          (Some x, Some y, Some x1, Some y1) \<Rightarrow>
            [QuadTo (Math_round x1) (Math_round y1) (Math_round x) (Math_round y)]
        | _ \<Rightarrow> [])
     else if code cmd = ''Z'' \<or> code cmd = ''z'' then [ClosePath]
     else [])"

definition emitContourToPath :: "PathCommand list \<Rightarrow> OtCmd list" where
  "emitContourToPath contour = concat (map emitCommand contour)"

definition contourArea :: "PathCommand list \<Rightarrow> real" where
  "contourArea contour = calculateSignedArea (extractPointsFromCommands contour)"

text \<open>The search for the contour of largest absolute area: \<open>(largestIdx, largestAbsArea)\<close>.\<close>

definition largestContour :: "PathCommand list list \<Rightarrow> nat \<times> real" where
  "largestContour contours =
    foldl (\<lambda>(largestIdx, largestAbsArea) i.
             let absArea = \<bar>contourArea (contours ! i)\<bar>
             in if absArea > largestAbsArea then (i, absArea) else (largestIdx, largestAbsArea))
      (0, 0) [0..<length contours]"

definition contoursToEmit :: "bool \<Rightarrow> PathCommand list list \<Rightarrow> PathCommand list list" where
  "contoursToEmit hasHoles contours =
    (if hasHoles \<and> 1 < length contours
     then [contours ! fst (largestContour contours)]
     else contours)"

text \<open>The \<open>finalContour\<close> handed to \<open>emitContourToPath\<close>, for an outline and for a hole.\<close>

definition finalOutlineContour :: "PathCommand list \<Rightarrow> PathCommand list" where
  "finalOutlineContour contour =
    (let signedArea = contourArea contour;
         needsReverse = signedArea < 0
     in if needsReverse then reverseContour contour else contour)"

definition finalHoleContour :: "PathCommand list \<Rightarrow> PathCommand list" where
  "finalHoleContour contour =
    (let signedArea = contourArea contour;
         needsReverse = signedArea > 0
     in if needsReverse then reverseContour contour else contour)"

text \<open>The contours emitted for one outline path and for one hole path, in order.\<close>

definition emittedForOutline :: "bool \<Rightarrow> PathCommand list \<Rightarrow> PathCommand list list" where
  "emittedForOutline hasHoles commands =
    (let contours = splitIntoContours commands
     in if contours = [] then []
        else map finalOutlineContour (contoursToEmit hasHoles contours))"

definition emittedForHole :: "PathCommand list \<Rightarrow> PathCommand list list" where
  "emittedForHole commands = map finalHoleContour (splitIntoContours commands)"

text \<open>
  The JSON branch of \<open>normalizedSvgToOpentypePath\<close>, on the parsed outline and hole
  paths: first the contours it emits, then the path built from them.
\<close>

definition emittedOutlines :: "PathCommand list list \<Rightarrow> PathCommand list list \<Rightarrow> PathCommand list list" where
  "emittedOutlines outlinePaths holePaths =
    (let hasHoles = 0 < length holePaths
     in concat (map (emittedForOutline hasHoles) outlinePaths))"

definition emittedHoles :: "PathCommand list list \<Rightarrow> PathCommand list list" where
  "emittedHoles holePaths = concat (map emittedForHole holePaths)"

definition normalizedSvgToOpentypePath :: "PathCommand list list \<Rightarrow> PathCommand list list \<Rightarrow> OtCmd list" where
  "normalizedSvgToOpentypePath outlinePaths holePaths =
    concat (map emitContourToPath (emittedOutlines outlinePaths holePaths @ emittedHoles holePaths))"

section \<open>Zhang-Suen thinning (lib/image/Thinning.ts)\<close>

text \<open>
  An \<open>ImageData\<close>: width, height and the RGBA bytes, row by row. Reading past the end of
  the byte array gives \<open>undefined\<close> in the source, and \<open>undefined > 128\<close> is false.
\<close>

record ImageData =
  width :: nat
  height :: nat
  data :: "nat list"

definition inkAt :: "nat list \<Rightarrow> nat \<Rightarrow> bool" where
  "inkAt d idx = (idx < length d \<and> 128 < d ! idx)"

definition makeGrid :: "ImageData \<Rightarrow> nat list list" where
  "makeGrid input =
    map (\<lambda>y. map (\<lambda>x. if inkAt (data input) ((y * width input + x) * 4) then 1 else 0)
                [0..<width input])
      [0..<height input]"

definition getNeighbors :: "nat list list \<Rightarrow> nat \<Rightarrow> nat \<Rightarrow> nat list" where
  "getNeighbors g x y =
    [g ! (y - 1) ! x, g ! (y - 1) ! (x + 1), g ! y ! (x + 1), g ! (y + 1) ! (x + 1),
     g ! (y + 1) ! x, g ! (y + 1) ! (x - 1), g ! y ! (x - 1), g ! (y - 1) ! (x - 1)]"

definition countTransitions :: "nat list \<Rightarrow> nat" where
  "countTransitions neighbors =
    foldl (\<lambda>count i. if neighbors ! i = 0 \<and> neighbors ! ((i + 1) mod 8) = 1
                      then count + 1 else count)
      0 [0..<8]"

definition countNonZeroNeighbors :: "nat list \<Rightarrow> nat" where
  "countNonZeroNeighbors neighbors = foldl (\<lambda>sum val. sum + val) 0 neighbors"

definition shouldRemoveStep1 :: "nat list list \<Rightarrow> nat \<Rightarrow> nat \<Rightarrow> bool" where
  "shouldRemoveStep1 g x y =
    (let neighbors = getNeighbors g x y;
         P2 = neighbors ! 0; P4 = neighbors ! 2; P6 = neighbors ! 4; P8 = neighbors ! 6;
         A = countNonZeroNeighbors neighbors;
         B = countTransitions neighbors
     in 2 \<le> A \<and> A \<le> 6 \<and> B = 1 \<and> P2 * P4 * P6 = 0 \<and> P4 * P6 * P8 = 0)"

definition shouldRemoveStep2 :: "nat list list \<Rightarrow> nat \<Rightarrow> nat \<Rightarrow> bool" where
  "shouldRemoveStep2 g x y =
    (let neighbors = getNeighbors g x y;
         P2 = neighbors ! 0; P4 = neighbors ! 2; P6 = neighbors ! 4; P8 = neighbors ! 6;
         A = countNonZeroNeighbors neighbors;
         B = countTransitions neighbors
     in 2 \<le> A \<and> A \<le> 6 \<and> B = 1 \<and> P2 * P4 * P8 = 0 \<and> P2 * P6 * P8 = 0)"

text \<open>The pixels \<open>[x, y]\<close> collected by one sub-iteration, in scan order, and their removal.\<close>

definition toRemove ::
  "(nat list list \<Rightarrow> nat \<Rightarrow> nat \<Rightarrow> bool) \<Rightarrow> nat \<Rightarrow> nat \<Rightarrow> nat list list \<Rightarrow> (nat \<times> nat) list" where
  "toRemove shouldRemove w h g =
    concat (map (\<lambda>y. concat (map (\<lambda>x. if g ! y ! x = 1 \<and> shouldRemove g x y then [(x, y)] else [])
                                 [1..<w - 1]))
              [1..<h - 1])"

definition removePixels :: "nat list list \<Rightarrow> (nat \<times> nat) list \<Rightarrow> nat list list" where
  "removePixels g ps = foldl (\<lambda>g (x, y). g[y := (g ! y)[x := 0]]) g ps"

definition maxIterations :: nat where
  "maxIterations = 1000"

text \<open>
  The main loop, as a function of its state \<open>(grid, changed, iterations)\<close>; it returns the
  final grid and the iteration count that the source logs.
\<close>

function thinLoop :: "nat \<Rightarrow> nat \<Rightarrow> nat list list \<Rightarrow> bool \<Rightarrow> nat \<Rightarrow> nat list list \<times> nat" where
  "thinLoop w h g changed iterations =
    (if changed \<and> iterations < maxIterations then
       let toRemove1 = toRemove shouldRemoveStep1 w h g;
           g1 = removePixels g toRemove1;
           toRemove2 = toRemove shouldRemoveStep2 w h g1;
           g2 = removePixels g1 toRemove2
       in thinLoop w h g2 (toRemove1 \<noteq> [] \<or> toRemove2 \<noteq> []) (iterations + 1)
     else (g, iterations))"
  by pat_completeness auto
termination
  by (relation "measure (\<lambda>(w, h, g, changed, iterations). maxIterations - iterations)") auto

declare thinLoop.simps [simp del]

definition gridToData :: "nat \<Rightarrow> nat \<Rightarrow> nat list list \<Rightarrow> nat list" where
  "gridToData w h g =
    concat (map (\<lambda>y. concat (map (\<lambda>x. let val = (if g ! y ! x = 1 then 255 else 0)
                                        in [val, val, val, 255])
                                 [0..<w]))
              [0..<h])"

definition zhangSuenIterations :: "ImageData \<Rightarrow> nat" where
  "zhangSuenIterations input =
    snd (thinLoop (width input) (height input) (makeGrid input) True 0)"

definition zhangSuenThinning :: "ImageData \<Rightarrow> ImageData" where
  "zhangSuenThinning input =
    \<lparr>width = width input, height = height input,
     data = gridToData (width input) (height input)
              (fst (thinLoop (width input) (height input) (makeGrid input) True 0))\<rparr>"

section \<open>Marker detection and the page pipeline (OpenCVProcessor.ts, TemplateProcessor.ts)\<close>

text \<open>
  OpenCV is an external library. Images (\<open>Mat\<close> and \<open>ImageData\<close> values) are an abstract
  type \<open>'img\<close>, homographies an abstract type \<open>'h\<close>, and the OpenCV-backed operations are
  the fields of a record of parameters:
  \<^item> \<open>loadOpenCV\<close>: the message of the error with which loading fails, if it does;
  \<^item> \<open>imageSize\<close>: \<open>(cols, rows)\<close> of a \<open>Mat\<close>;
  \<^item> \<open>otsuBinary\<close>: the inverted Otsu threshold of the grey-scale scan;
  \<^item> \<open>squareCandidates\<close>: the contours of the binary image that pass the area, aspect
    ratio and solidity tests, in contour order (\<open>allCandidates\<close>);
  \<^item> \<open>findHomography\<close>, \<open>warpToTemplate\<close>, \<open>subtractTemplate\<close>, \<open>morphologicalCleanup\<close>,
    \<open>imageDataToMat\<close>, \<open>matToImageData\<close>: the functions of these names;
  \<^item> \<open>blankTemplate\<close>: the rendered blank page; \<open>extractGlyphs\<close>: the per-cell extraction
    loop of step 4, from the processed page.
  These operations are taken not to throw, \<open>loadOpenCV\<close> apart.
\<close>

record DetectedMarker =
  dm_center :: Pt
  dm_corners :: "Pt list"
  dm_area :: real

record 'img MarkerDetectionResult =
  md_topLeft :: "DetectedMarker option"
  md_topRight :: "DetectedMarker option"
  md_bottomLeft :: "DetectedMarker option"
  md_bottomRight :: "DetectedMarker option"
  md_success :: bool
  md_debugBinary :: "'img option"

record Region =
  xMin :: real
  xMax :: real
  yMin :: real
  yMax :: real

record ('img, 'h) ProcessedPage =
  pp_warped :: 'img
  pp_subtracted :: 'img
  pp_cleaned :: 'img
  pp_thresholded :: "'img option"
  pp_markers :: "'img MarkerDetectionResult"
  pp_homography :: "'h option"

record ('img, 'h, 'g) Cv =
  loadOpenCV :: "string option"
  imageSize :: "'img \<Rightarrow> real \<times> real"
  otsuBinary :: "'img \<Rightarrow> 'img"
  squareCandidates :: "'img \<Rightarrow> DetectedMarker list"
  findHomography :: "'img MarkerDetectionResult \<Rightarrow> TemplateCoordinates \<Rightarrow> 'h option"
  warpToTemplate :: "'img \<Rightarrow> 'h \<Rightarrow> TemplateCoordinates \<Rightarrow> 'img"
  subtractTemplate :: "'img \<Rightarrow> 'img \<Rightarrow> real \<Rightarrow> 'img"
  morphologicalCleanup :: "'img \<Rightarrow> real \<Rightarrow> real \<Rightarrow> 'img"
  imageDataToMat :: "'img \<Rightarrow> 'img"
  matToImageData :: "'img \<Rightarrow> 'img"
  blankTemplate :: "TemplateConfig \<Rightarrow> 'img"
  extractGlyphs :: "('img, 'h) ProcessedPage \<Rightarrow> TemplateCoordinates \<Rightarrow> 'g list"

definition hypot :: "real \<Rightarrow> real \<Rightarrow> real" where
  "hypot a b = sqrt (a * a + b * b)"

text \<open>
  The best candidate of one corner region: the candidates whose centre lies in the region,
  sorted (stably) by distance to the image corner; the first one, if there is any.
\<close>

definition bestInRegion :: "real \<Rightarrow> real \<Rightarrow> Region \<Rightarrow> DetectedMarker list \<Rightarrow> DetectedMarker option" where
  "bestInRegion cornerX cornerY region allCandidates =
    (let inRegion = filter (\<lambda>c. xMin region \<le> px (dm_center c) \<and> px (dm_center c) \<le> xMax region
                               \<and> yMin region \<le> py (dm_center c) \<and> py (dm_center c) \<le> yMax region)
                      allCandidates
     in if 0 < length inRegion
        then Some (hd (sort_key (\<lambda>a. hypot (px (dm_center a) - cornerX) (py (dm_center a) - cornerY))
                         inRegion))
        else None)"

definition detectCornerMarkers :: "('img, 'h, 'g) Cv \<Rightarrow> 'img \<Rightarrow> 'img MarkerDetectionResult" where
  "detectCornerMarkers cv imageMat =
    (let (w, h) = imageSize cv imageMat;
         binary = otsuBinary cv imageMat;
         allCandidates = squareCandidates cv imageMat;
         cornerMargin = 20 / 100;
         tl = bestInRegion 0 0
                \<lparr>xMin = 0, xMax = w * cornerMargin, yMin = 0, yMax = h * cornerMargin\<rparr> allCandidates;
         tr = bestInRegion w 0
                \<lparr>xMin = w * (1 - cornerMargin), xMax = w, yMin = 0, yMax = h * cornerMargin\<rparr>
                allCandidates;
         bl = bestInRegion 0 h
                \<lparr>xMin = 0, xMax = w * cornerMargin, yMin = h * (1 - cornerMargin), yMax = h\<rparr>
                allCandidates;
         br = bestInRegion w h
                \<lparr>xMin = w * (1 - cornerMargin), xMax = w, yMin = h * (1 - cornerMargin), yMax = h\<rparr>
                allCandidates
     in \<lparr>md_topLeft = tl, md_topRight = tr, md_bottomLeft = bl, md_bottomRight = br,
         md_success = (tl \<noteq> None \<and> tr \<noteq> None \<and> bl \<noteq> None \<and> br \<noteq> None),
         md_debugBinary = Some binary\<rparr>)"

record ProcessingOptions =
  po_config :: TemplateConfig
  po_subtractThreshold :: real
  po_morphologyCloseSize :: real
  po_morphologyOpenSize :: real
  po_minComponentArea :: real

text \<open>\<open>processPage\<close>: \<open>None\<close> is the source's \<open>null\<close>.\<close>

definition processPage ::
  "('img, 'h, 'g) Cv \<Rightarrow> 'img \<Rightarrow> 'img \<Rightarrow> TemplateCoordinates \<Rightarrow> ProcessingOptions
    \<Rightarrow> ('img, 'h) ProcessedPage option" where
  "processPage cv imageData blankTemplateData templateCoords options =
    (let scanMat = imageDataToMat cv imageData;
         templateMat = imageDataToMat cv blankTemplateData;
         markers = detectCornerMarkers cv scanMat
     in if \<not> md_success markers then
          Some \<lparr>pp_warped = scanMat, pp_subtracted = scanMat, pp_cleaned = scanMat,
                pp_thresholded = (case md_debugBinary markers of Some b \<Rightarrow> Some b | None \<Rightarrow> Some scanMat),
                pp_markers = markers, pp_homography = None\<rparr>
        else
          case (if \<not> md_success markers then None else findHomography cv markers templateCoords) of
            None \<Rightarrow> None
          | Some homography \<Rightarrow>
              let warped = warpToTemplate cv scanMat homography templateCoords;
                  subtracted = subtractTemplate cv warped templateMat (po_subtractThreshold options);
                  cleaned = morphologicalCleanup cv subtracted (po_morphologyCloseSize options)
                              (po_morphologyOpenSize options)
              in Some \<lparr>pp_warped = warped, pp_subtracted = subtracted, pp_cleaned = cleaned,
                       pp_thresholded = md_debugBinary markers,
                       pp_markers = markers, pp_homography = Some homography\<rparr>)"

record 'img DebugImages =
  di_warped :: "'img option"
  di_subtracted :: "'img option"
  di_cleaned :: "'img option"
  di_thresholded :: "'img option"

record ('img, 'g) ProcessingResult =
  pr_success :: bool
  pr_glyphs :: "'g list"
  pr_debugImages :: "'img DebugImages"
  pr_markers :: "'img MarkerDetectionResult option"
  pr_error :: "string option"

definition processTemplatePage ::
  "('img, 'h, 'g) Cv \<Rightarrow> 'img \<Rightarrow> ProcessingOptions \<Rightarrow> ('img, 'g) ProcessingResult" where
  "processTemplatePage cv scanImageData options =
    (let result = \<lparr>pr_success = False, pr_glyphs = [],
                    pr_debugImages = \<lparr>di_warped = None, di_subtracted = None, di_cleaned = None,
                                        di_thresholded = None\<rparr>,
                    pr_markers = None, pr_error = None\<rparr>
     in case loadOpenCV cv of
          Some message \<Rightarrow> result\<lparr>pr_error := Some message\<rparr>
        | None \<Rightarrow>
            let templateCoords = getTemplateCoordinates (po_config options);
                blank = blankTemplate cv (po_config options)
            in case processPage cv scanImageData blank templateCoords options of
                 None \<Rightarrow> result\<lparr>pr_error := Some ''Failed to process page. Processing returned null.''\<rparr>
               | Some processed \<Rightarrow>
                   let result = result\<lparr>pr_markers := Some (pp_markers processed)\<rparr>;
                       result = result\<lparr>pr_debugImages :=
                                  \<lparr>di_warped = Some (matToImageData cv (pp_warped processed)),
                                   di_subtracted = Some (matToImageData cv (pp_subtracted processed)),
                                   di_cleaned = Some (matToImageData cv (pp_cleaned processed)),
                                   di_thresholded = map_option (matToImageData cv) (pp_thresholded processed)\<rparr>\<rparr>
                   in if \<not> md_success (pp_markers processed) then
                        result\<lparr>pr_error := Some ''Failed to detect all 4 corner markers. Check the thresholded debug image.''\<rparr>
                      else
                        result\<lparr>pr_glyphs := extractGlyphs cv processed templateCoords,
                               pr_success := True\<rparr>)"

section \<open>Cell vectorisation (vectorizeCell)\<close>

record VectorizationResult =
  vr_svgPath :: string
  vr_bounds :: Bounds
  vr_isEmpty :: bool

text \<open>
  The scan for the content bounds; its state is \<open>(minX, minY, maxX, maxY, hasContent)\<close>
  and the pixels are visited row by row.
\<close>

definition scanStep ::
  "ImageData \<Rightarrow> int \<times> int \<times> int \<times> int \<times> bool \<Rightarrow> nat \<times> nat \<Rightarrow> int \<times> int \<times> int \<times> int \<times> bool" where
  "scanStep img st p =
    (let (x, y) = p; (minX, minY, maxX, maxY, hasContent) = st
     in if inkAt (data img) ((y * width img + x) * 4)
        then (min minX (int x), min minY (int y), max maxX (int x), max maxY (int y), True)
        else st)"

definition pixelOrder :: "ImageData \<Rightarrow> (nat \<times> nat) list" where
  "pixelOrder img = concat (map (\<lambda>y. map (\<lambda>x. (x, y)) [0..<width img]) [0..<height img])"

definition contentBounds :: "ImageData \<Rightarrow> int \<times> int \<times> int \<times> int \<times> bool" where
  "contentBounds img =
    foldl (scanStep img) (int (width img), int (height img), 0, 0, False) (pixelOrder img)"

text \<open>
  \<open>vectorizeCell\<close>. Cropping on a canvas, blurring, the third-party tracer and the reading of
  its SVG through the DOM are the parameter \<open>trace\<close>: the path data extracted for the image
  and the padded bounds, or \<open>None\<close> when tracing throws (the error is caught).
\<close>

definition vectorizeCell ::
  "(ImageData \<Rightarrow> Bounds \<Rightarrow> string option) \<Rightarrow> ImageData \<Rightarrow> VectorizationResult" where
  "vectorizeCell trace cellImageData =
    (let (minX, minY, maxX, maxY, hasContent) = contentBounds cellImageData
     in if \<not> hasContent \<or> maxX \<le> minX \<or> maxY \<le> minY then
          \<lparr>vr_svgPath = [], vr_bounds = \<lparr>b_x = 0, b_y = 0, b_width = 0, b_height = 0\<rparr>,
           vr_isEmpty = True\<rparr>
        else
          let padding = 2;
              minX = max 0 (minX - padding);
              minY = max 0 (minY - padding);
              maxX = min (int (width cellImageData) - 1) (maxX + padding);
              maxY = min (int (height cellImageData) - 1) (maxY + padding);
              bounds = \<lparr>b_x = real_of_int minX, b_y = real_of_int minY,
                        b_width = real_of_int (maxX - minX + 1),
                        b_height = real_of_int (maxY - minY + 1)\<rparr>
          in case trace cellImageData bounds of
               Some pathData \<Rightarrow>
                 \<lparr>vr_svgPath = pathData, vr_bounds = bounds, vr_isEmpty = (length pathData = 0)\<rparr>
             | None \<Rightarrow> \<lparr>vr_svgPath = [], vr_bounds = bounds, vr_isEmpty = True\<rparr>)"

text \<open>The ink pixels of a cell mask: the positions whose first channel exceeds 128.\<close>

definition inkPixels :: "ImageData \<Rightarrow> (nat \<times> nat) set" where
  "inkPixels img =
    {(x, y). x < width img \<and> y < height img \<and> inkAt (data img) ((y * width img + x) * 4)}"

definition isInk :: "ImageData \<Rightarrow> nat \<times> nat \<Rightarrow> bool" where
  "isInk img p = inkAt (data img) ((snd p * width img + fst p) * 4)"

section \<open>Per-cell connected-component filter (removeSmallComponents)\<close>

text \<open>
  A single-channel 8-bit \<open>Mat\<close>, row by row. \<open>cv.connectedComponentsWithStats\<close> is an
  OpenCV function; what it returns for a mask is the parameter \<open>cc\<close>: the number of labels
  (label 0 is the background), the label of every pixel, and per label the area and the y
  coordinate of the centroid.
\<close>

record Mat =
  rows :: nat
  cols :: nat
  pixels :: "nat list"

record Components =
  numLabels :: nat
  labels :: "nat list"
  statArea :: "int list"
  centroidY :: "real list"

definition countNonZero :: "Mat \<Rightarrow> nat" where
  "countNonZero m = length (filter (\<lambda>v. v \<noteq> 0) (pixels m))"

definition ensureInkIsWhite :: "Mat \<Rightarrow> Mat" where
  "ensureInkIsWhite binaryMat =
    (let nonZero = countNonZero binaryMat;
         total = rows binaryMat * cols binaryMat
     in if real nonZero > real total * (1 / 2)
        then binaryMat\<lparr>pixels := map (\<lambda>v. 255 - v) (pixels binaryMat)\<rparr>
        else binaryMat)"

definition labelsToKeep :: "Components \<Rightarrow> real \<Rightarrow> real \<Rightarrow> real \<Rightarrow> nat list" where
  "labelsToKeep comps minArea rejectTopFraction topRejectY =
    filter (\<lambda>i. \<not> real_of_int (statArea comps ! i) < minArea
                \<and> \<not> (rejectTopFraction > 0 \<and> centroidY comps ! i < topRejectY))
      [1..<numLabels comps]"

definition removeSmallComponents :: "(Mat \<Rightarrow> Components) \<Rightarrow> Mat \<Rightarrow> real \<Rightarrow> real \<Rightarrow> Mat" where
  "removeSmallComponents cc binaryMat minArea rejectTopFraction =
    (let normalized = ensureInkIsWhite binaryMat;
         comps = cc normalized;
         imageHeight = rows binaryMat;
         topRejectY = real imageHeight * rejectTopFraction;
         keep = labelsToKeep comps minArea rejectTopFraction topRejectY
     in \<lparr>rows = rows binaryMat, cols = cols binaryMat,
         pixels = map (\<lambda>i. if i < length (labels comps) \<and> labels comps ! i \<in> set keep
                             then 255 else 0)
                    [0..<rows binaryMat * cols binaryMat]\<rparr>)"

text \<open>
  What a labelling must satisfy to be the components of a mask, connectivity apart: a
  label for every pixel, zero exactly on the zero pixels and below the number of labels;
  the area of a label is its number of pixels and its centroid y the mean of their rows.
\<close>

definition labelPixels :: "Components \<Rightarrow> nat \<Rightarrow> nat list" where
  "labelPixels comps l = filter (\<lambda>i. labels comps ! i = l) [0..<length (labels comps)]"

definition ccConsistent :: "Mat \<Rightarrow> Components \<Rightarrow> bool" where
  "ccConsistent m comps =
    (length (labels comps) = rows m * cols m \<and> length (pixels m) = rows m * cols m
     \<and> length (statArea comps) = numLabels comps \<and> length (centroidY comps) = numLabels comps
     \<and> list_all (\<lambda>i. (labels comps ! i = 0) = (pixels m ! i = 0) \<and> labels comps ! i < numLabels comps)
          [0..<rows m * cols m]
     \<and> list_all (\<lambda>l. statArea comps ! l = int (length (labelPixels comps l))
                      \<and> centroidY comps ! l * real (length (labelPixels comps l))
                          = real (sum_list (map (\<lambda>i. i div cols m) (labelPixels comps l))))
          [1..<numLabels comps])"

section \<open>Douglas-Peucker simplification (simplifyPath, simplifyStroke)\<close>

definition perpendicularDistance :: "Pt \<Rightarrow> Pt \<Rightarrow> Pt \<Rightarrow> real" where
  "perpendicularDistance point lineStart lineEnd =
    (let dx = px lineEnd - px lineStart;
         dy = py lineEnd - py lineStart;
         lineLengthSq = dx * dx + dy * dy
     in if lineLengthSq = 0
        then sqrt ((px point - px lineStart)\<^sup>2 + (py point - py lineStart)\<^sup>2)
        else \<bar>(py lineEnd - py lineStart) * px point - (px lineEnd - px lineStart) * py point
               + px lineEnd * py lineStart - py lineEnd * px lineStart\<bar>
             / sqrt lineLengthSq)"

text \<open>
  One turn of a loop that looks for the largest distance: the state is
  \<open>(maxDist, maxIndex)\<close> and \<open>dst i\<close> is the distance of the point of index \<open>i\<close>.
\<close>

definition findMaxStep :: "(nat \<Rightarrow> real) \<Rightarrow> real \<times> nat \<Rightarrow> nat \<Rightarrow> real \<times> nat" where
  "findMaxStep dst st i =
    (let (maxDist, maxIndex) = st
     in if dst i > maxDist then (dst i, i) else (maxDist, maxIndex))"

definition findMax :: "Pt list \<Rightarrow> real \<times> nat" where
  "findMax points =
    foldl (findMaxStep (\<lambda>i. perpendicularDistance (points ! i) (points ! 0)
                              (points ! (length points - 1))))
      (0, 0) [1..<length points - 1]"

lemma findMaxStep_index:
  "snd (foldl (findMaxStep dst) st [a..<b]) = snd st
    \<or> (a \<le> snd (foldl (findMaxStep dst) st [a..<b]) \<and> snd (foldl (findMaxStep dst) st [a..<b]) < b)"
proof (induction b)
  case 0
  then show ?case by simp
next
  case (Suc b)
  show ?case
  proof (cases "a \<le> b")
    case True
    then show ?thesis
      using Suc by (auto simp: findMaxStep_def Let_def split: prod.splits)
  next
    case False
    then show ?thesis by simp
  qed
qed

lemma findMax_index:
  "snd (findMax points) = 0
    \<or> (1 \<le> snd (findMax points) \<and> snd (findMax points) < length points - 1)"
  using findMaxStep_index [of _ "(0, 0)" 1 "length points - 1"]
  unfolding findMax_def by simp

text \<open>
  \<open>simplifyPath\<close>. With a negative \<open>epsilon\<close> the source can find \<open>maxDist = 0 > epsilon\<close>
  with \<open>maxIndex = 0\<close>; its second recursive call is then on \<open>points.slice(0)\<close>, the same
  list, and the recursion never ends (a \<open>RangeError\<close>): the result \<open>None\<close>.
\<close>

function simplifyPath :: "real \<Rightarrow> Pt list \<Rightarrow> Pt list option" where
  "simplifyPath epsilon points =
    (if length points \<le> 2 then Some points
     else if fst (findMax points) > epsilon then
       (if snd (findMax points) = 0 then None
        else case simplifyPath epsilon (take (snd (findMax points) + 1) points) of
               None \<Rightarrow> None
             | Some left \<Rightarrow>
                 (case simplifyPath epsilon (drop (snd (findMax points)) points) of
                    None \<Rightarrow> None
                  | Some right \<Rightarrow> Some (butlast left @ right)))
     else Some [points ! 0, points ! (length points - 1)])"
  by pat_completeness auto
termination
proof (relation "measure (\<lambda>(epsilon, points). length points)")
  show "wf (measure (\<lambda>(epsilon, points). length points))" by simp
next
  fix epsilon :: real and points :: "Pt list"
  assume "\<not> length points \<le> 2" "snd (findMax points) \<noteq> 0"
  then show "((epsilon, take (snd (findMax points) + 1) points), epsilon, points)
      \<in> measure (\<lambda>(epsilon, points). length points)"
    using findMax_index [of points] by simp
next
  fix epsilon :: real and points :: "Pt list" and x2 :: "Pt list"
  assume "\<not> length points \<le> 2" "snd (findMax points) \<noteq> 0"
  then show "((epsilon, drop (snd (findMax points)) points), epsilon, points)
      \<in> measure (\<lambda>(epsilon, points). length points)"
    using findMax_index [of points] by simp
qed

declare simplifyPath.simps [simp del]

text \<open>
  \<open>simplifyStroke\<close>. The distance divides by the length of the chord; when the two ends
  coincide the source computes \<open>0 / 0 = NaN\<close> (the numerator is then zero as well), and
  \<open>NaN > maxDist\<close> is false: \<open>None\<close> stands for \<open>NaN\<close>.
\<close>

definition strokeDistance :: "Pt \<Rightarrow> Pt \<Rightarrow> Pt \<Rightarrow> real option" where
  "strokeDistance p p1 p2 =
    (let den = sqrt ((py p2 - py p1)\<^sup>2 + (px p2 - px p1)\<^sup>2)
     in if den = 0 then None
        else Some (\<bar>(py p2 - py p1) * px p - (px p2 - px p1) * py p + px p2 * py p1 - py p2 * px p1\<bar>
                   / den))"

definition findMaxDistanceStep :: "Pt list \<Rightarrow> nat \<Rightarrow> nat \<Rightarrow> real \<times> nat \<Rightarrow> nat \<Rightarrow> real \<times> nat" where
  "findMaxDistanceStep pts start end st i =
    (let (maxDist, index) = st
     in case strokeDistance (pts ! i) (pts ! start) (pts ! end) of
          None \<Rightarrow> (maxDist, index)
        | Some dst \<Rightarrow> if dst > maxDist then (dst, i) else (maxDist, index))"

definition findMaxDistance :: "Pt list \<Rightarrow> nat \<Rightarrow> nat \<Rightarrow> real \<times> nat" where
  "findMaxDistance pts start end =
    foldl (findMaxDistanceStep pts start end) (0, 0) [start + 1..<end]"

lemma findMaxDistanceStep_index:
  "snd (foldl (findMaxDistanceStep pts s e) st [a..<b]) = snd st
    \<or> (a \<le> snd (foldl (findMaxDistanceStep pts s e) st [a..<b])
        \<and> snd (foldl (findMaxDistanceStep pts s e) st [a..<b]) < b)"
proof (induction b)
  case 0
  then show ?case by simp
next
  case (Suc b)
  show ?case
  proof (cases "a \<le> b")
    case True
    then show ?thesis
      using Suc by (auto simp: findMaxDistanceStep_def Let_def split: prod.splits option.splits)
  next
    case False
    then show ?thesis by simp
  qed
qed

lemma findMaxDistance_index:
  "snd (findMaxDistance pts start end) = 0
    \<or> (start < snd (findMaxDistance pts start end) \<and> snd (findMaxDistance pts start end) < end)"
  using findMaxDistanceStep_index [of pts start "end" "(0, 0)" "start + 1" "end"]
  unfolding findMaxDistance_def by auto

text \<open>
  The inner function \<open>simplify\<close>. As above, \<open>maxDist > epsilon\<close> with \<open>index = 0\<close> (possible
  only for a negative \<open>epsilon\<close>) makes the source call \<open>simplify(pts, start, 0)\<close> for ever.
\<close>

function simplify :: "real \<Rightarrow> Pt list \<Rightarrow> nat \<Rightarrow> nat \<Rightarrow> Pt list option" where
  "simplify epsilon pts start end =
    (if fst (findMaxDistance pts start end) > epsilon then
       (if snd (findMaxDistance pts start end) = 0 then None
        else case simplify epsilon pts start (snd (findMaxDistance pts start end)) of
               None \<Rightarrow> None
             | Some left \<Rightarrow>
                 (case simplify epsilon pts (snd (findMaxDistance pts start end)) end of
                    None \<Rightarrow> None
                  | Some right \<Rightarrow> Some (butlast left @ right)))
     else Some [pts ! start, pts ! end])"
  by pat_completeness auto
termination
proof (relation "measure (\<lambda>(epsilon, pts, start, end). end - start)")
  show "wf (measure (\<lambda>(epsilon, pts, start, end). end - start))" by simp
next
  fix epsilon :: real and pts :: "Pt list" and start "end" :: nat
  assume "snd (findMaxDistance pts start end) \<noteq> 0"
  then show "((epsilon, pts, start, snd (findMaxDistance pts start end)), epsilon, pts, start, end)
      \<in> measure (\<lambda>(epsilon, pts, start, end). end - start)"
    using findMaxDistance_index [of pts start "end"] by auto
next
  fix epsilon :: real and pts :: "Pt list" and start "end" :: nat and x2 :: "Pt list"
  assume "snd (findMaxDistance pts start end) \<noteq> 0"
  then show "((epsilon, pts, snd (findMaxDistance pts start end), end), epsilon, pts, start, end)
      \<in> measure (\<lambda>(epsilon, pts, start, end). end - start)"
    using findMaxDistance_index [of pts start "end"] by auto
qed

declare simplify.simps [simp del]

definition simplifyStroke :: "real \<Rightarrow> Pt list \<Rightarrow> Pt list option" where
  "simplifyStroke epsilon points =
    (if length points \<le> 2 then Some points
     else simplify epsilon points 0 (length points - 1))"

text \<open>
  For the proofs: the same search as a scan over the interior points themselves, and the
  recursion scheme that both simplifiers share, for any distance function \<open>d\<close>.
\<close>

fun scanMax :: "(Pt \<Rightarrow> real) \<Rightarrow> real \<times> nat \<Rightarrow> nat \<Rightarrow> Pt list \<Rightarrow> real \<times> nat" where
  "scanMax g st k [] = st"
| "scanMax g st k (x # xs) = scanMax g (if g x > fst st then (g x, k) else st) (Suc k) xs"

definition interior :: "Pt list \<Rightarrow> Pt list" where
  "interior ps = butlast (tl ps)"

definition chordMax :: "(Pt \<Rightarrow> Pt \<Rightarrow> Pt \<Rightarrow> real) \<Rightarrow> Pt list \<Rightarrow> real \<times> nat" where
  "chordMax d ps = scanMax (\<lambda>x. d x (hd ps) (last ps)) (0, 0) 1 (interior ps)"

lemma scanMax_index:
  "snd (scanMax g st k xs) = snd st
    \<or> (k \<le> snd (scanMax g st k xs) \<and> snd (scanMax g st k xs) < k + length xs)"
proof (induction xs arbitrary: st k)
  case Nil
  then show ?case by simp
next
  case (Cons x xs)
  show ?case
    using Cons [of "if g x > fst st then (g x, k) else st" "Suc k"]
    by (auto split: if_splits)
qed

lemma chordMax_index:
  "snd (chordMax d ps) = 0 \<or> (1 \<le> snd (chordMax d ps) \<and> snd (chordMax d ps) < length ps - 1)"
  using scanMax_index [of "\<lambda>x. d x (hd ps) (last ps)" "(0, 0)" 1 "interior ps"]
  unfolding chordMax_def interior_def by auto

function dpGeneric :: "(Pt \<Rightarrow> Pt \<Rightarrow> Pt \<Rightarrow> real) \<Rightarrow> real \<Rightarrow> Pt list \<Rightarrow> Pt list option" where
  "dpGeneric d epsilon ps =
    (if length ps \<le> 2 then Some ps
     else if fst (chordMax d ps) > epsilon then
       (if snd (chordMax d ps) = 0 then None
        else case dpGeneric d epsilon (take (snd (chordMax d ps) + 1) ps) of
               None \<Rightarrow> None
             | Some left \<Rightarrow>
                 (case dpGeneric d epsilon (drop (snd (chordMax d ps)) ps) of
                    None \<Rightarrow> None
                  | Some right \<Rightarrow> Some (butlast left @ right)))
     else Some [hd ps, last ps])"
  by pat_completeness auto
termination
proof (relation "measure (\<lambda>(d, epsilon, ps). length ps)")
  show "wf (measure (\<lambda>(d, epsilon, ps). length ps))" by simp
next
  fix d :: "Pt \<Rightarrow> Pt \<Rightarrow> Pt \<Rightarrow> real" and epsilon :: real and ps :: "Pt list"
  assume "\<not> length ps \<le> 2" "snd (chordMax d ps) \<noteq> 0"
  then show "((d, epsilon, take (snd (chordMax d ps) + 1) ps), d, epsilon, ps)
      \<in> measure (\<lambda>(d, epsilon, ps). length ps)"
    using chordMax_index [of d ps] by simp
next
  fix d :: "Pt \<Rightarrow> Pt \<Rightarrow> Pt \<Rightarrow> real" and epsilon :: real and ps :: "Pt list" and x2 :: "Pt list"
  assume "\<not> length ps \<le> 2" "snd (chordMax d ps) \<noteq> 0"
  then show "((d, epsilon, drop (snd (chordMax d ps)) ps), d, epsilon, ps)
      \<in> measure (\<lambda>(d, epsilon, ps). length ps)"
    using chordMax_index [of d ps] by simp
qed

declare dpGeneric.simps [simp del]

text \<open>The distance of \<open>simplifyStroke\<close> with zero standing for \<open>NaN\<close>.\<close>

definition strokeDistance0 :: "Pt \<Rightarrow> Pt \<Rightarrow> Pt \<Rightarrow> real" where
  "strokeDistance0 p p1 p2 = (case strokeDistance p p1 p2 of None \<Rightarrow> 0 | Some v \<Rightarrow> v)"

section \<open>Endpoint welding (weldEndpoints)\<close>
































section \<open>Properties\<close>

subsection \<open>Rounding to the nearest double\<close>

lemma pow2_powr: "pow2 k = 2 powr real_of_int k"
  by (simp add: pow2_def powr_real_of_int field_simps)

lemma pow2_pos: "0 < pow2 k"
  by (simp add: pow2_powr)

lemma pow2_add: "pow2 (a + b) = pow2 a * pow2 b"
  by (simp add: pow2_powr powr_add)

lemma pow2_mono: "a \<le> b \<Longrightarrow> pow2 a \<le> pow2 b"
  by (simp add: pow2_powr)

lemma pow2_nat: "0 \<le> k \<Longrightarrow> pow2 k = real_of_int (2 ^ nat k)"
  by (simp add: pow2_def)

lemma expo_eq:
  assumes "pow2 e \<le> \<bar>x\<bar>" and "\<bar>x\<bar> < pow2 (e + 1)" and "- 1022 \<le> e"
  shows "expo x = e"
proof -
  have pos: "0 < \<bar>x\<bar>" using assms(1) pow2_pos [of e] by linarith
  have "\<lfloor>log 2 \<bar>x\<bar>\<rfloor> = e"
    using assms(1,2) floor_log_eq_powr_iff [of "\<bar>x\<bar>" 2 e] pos
    by (simp add: pow2_powr add.commute)
  then show ?thesis using assms(3) by (simp add: expo_def)
qed

lemma expo_bounds:
  assumes "0 < x"
  shows "- 1022 \<le> expo x" and "x < pow2 (expo x + 1)"
    and "- 1022 < expo x \<Longrightarrow> pow2 (expo x) \<le> x"
proof -
  define e0 where "e0 = \<lfloor>log 2 x\<rfloor>"
  have b: "pow2 e0 \<le> x \<and> x < pow2 (e0 + 1)"
    using floor_log_eq_powr_iff [of x 2 e0] assms
    by (simp add: pow2_powr e0_def add.commute)
  have e: "expo x = max e0 (- 1022)" using assms by (simp add: expo_def e0_def)
  show "- 1022 \<le> expo x" by (simp add: e)
  have "pow2 (e0 + 1) \<le> pow2 (expo x + 1)" by (rule pow2_mono) (simp add: e)
  then show "x < pow2 (expo x + 1)" using b by linarith
  show "pow2 (expo x) \<le> x" if "- 1022 < expo x"
  proof -
    have "expo x = e0" using that e by (simp add: max_def split: if_splits)
    then show ?thesis using b by simp
  qed
qed

lemma roundHalfEven_floor: "\<lfloor>y\<rfloor> \<le> roundHalfEven y"
  by (simp add: roundHalfEven_def Let_def)

lemma roundHalfEven_ge: "real_of_int m \<le> y \<Longrightarrow> m \<le> roundHalfEven y"
  using roundHalfEven_floor [of y] by (meson le_floor_iff order_trans)

lemma quantum_pos: "0 < quantum x"
  by (simp add: quantum_def pow2_pos)

lemma nearestDouble_grid:
  assumes "real_of_int m * quantum x \<le> x"
  shows "real_of_int m * quantum x \<le> nearestDouble x"
proof (cases "x = 0")
  case True
  then show ?thesis using assms by (simp add: nearestDouble_def)
next
  case False
  have "real_of_int m \<le> x / quantum x"
    using assms quantum_pos [of x] by (simp add: pos_le_divide_eq)
  then have "m \<le> roundHalfEven (x / quantum x)" by (rule roundHalfEven_ge)
  then have "real_of_int m * quantum x \<le> real_of_int (roundHalfEven (x / quantum x)) * quantum x"
    using quantum_pos [of x] by simp
  then show ?thesis using False by (simp add: nearestDouble_def)
qed

lemma nearestDouble_nonneg: "0 \<le> x \<Longrightarrow> 0 \<le> nearestDouble x"
  using nearestDouble_grid [of 0 x] by simp

text \<open>Rounding does not cross a double: a double \<open>k * 2^j\<close> below \<open>x\<close> stays below.\<close>

lemma nearestDouble_anchor:
  assumes k: "0 < k" "k < 2 ^ 53" and j: "- 1074 \<le> j"
    and le: "real_of_int k * pow2 j \<le> x"
  shows "real_of_int k * pow2 j \<le> nearestDouble x"
proof -
  have xpos: "0 < x" using le k(1) pow2_pos [of j]
    by (meson less_le_trans mult_pos_pos of_int_0_less_iff)
  define e where "e = expo x"
  have q: "quantum x = pow2 (e - 52)" by (simp add: quantum_def e_def)
  show ?thesis
  proof (cases "e - 52 \<le> j")
    case True
    define d where "d = j - (e - 52)"
    have d: "0 \<le> d" using True by (simp add: d_def)
    have "pow2 j = pow2 d * pow2 (e - 52)"
      using pow2_add [of d "e - 52"] by (simp add: d_def)
    then have eq: "real_of_int k * pow2 j = real_of_int (k * 2 ^ nat d) * quantum x"
      using d by (simp add: q pow2_nat)
    have "real_of_int (k * 2 ^ nat d) * quantum x \<le> nearestDouble x"
      by (rule nearestDouble_grid) (use le eq in linarith)
    then show ?thesis by (simp only: eq)
  next
    case False
    then have je: "j + 53 \<le> e" by simp
    then have "- 1022 < expo x" using j by (simp add: e_def)
    then have low: "pow2 e \<le> x" using expo_bounds(3) [OF xpos] by (simp add: e_def)
    have "pow2 e = real_of_int (2 ^ 52) * quantum x"
      using pow2_add [of 52 "e - 52"] by (simp add: q pow2_def)
    then have "pow2 e \<le> nearestDouble x"
      using nearestDouble_grid [of "2 ^ 52" x] low by simp
    moreover have "real_of_int k * pow2 j \<le> pow2 e"
    proof -
      have "real_of_int k \<le> pow2 53" using k(2) by (simp add: pow2_def)
      then have "real_of_int k * pow2 j \<le> pow2 53 * pow2 j"
        using pow2_pos [of j] by simp
      also have "\<dots> = pow2 (j + 53)" using pow2_add [of 53 j] by (simp add: add.commute)
      also have "\<dots> \<le> pow2 e" using je by (rule pow2_mono)
      finally show ?thesis .
    qed
    ultimately show ?thesis by linarith
  qed
qed

lemma nearestDouble_eval:
  assumes "pow2 e \<le> \<bar>x\<bar>" and "\<bar>x\<bar> < pow2 (e + 1)" and "- 1022 \<le> e"
  shows "nearestDouble x = real_of_int (roundHalfEven (x / pow2 (e - 52))) * pow2 (e - 52)"
proof -
  have "x \<noteq> 0" using assms(1) pow2_pos [of e] by auto
  then show ?thesis using expo_eq [OF assms] by (simp add: nearestDouble_def quantum_def)
qed

lemma MAX_VALUE_pos: "0 < MAX_VALUE"
  by (simp add: MAX_VALUE_def)

lemma fl_atLeast:
  assumes "v \<le> nearestDouble x" and "0 \<le> v"
  shows "atLeastNumber v (fl x)"
  using assms MAX_VALUE_pos by (simp add: fl_def Let_def atLeastNumber_def)

lemma fl_nonneg: "0 \<le> x \<Longrightarrow> atLeastNumber 0 (fl x)"
  by (rule fl_atLeast) (simp_all add: nearestDouble_nonneg)

lemma fl_ge_10: "10 \<le> x \<Longrightarrow> atLeastNumber 10 (fl x)"
proof (rule fl_atLeast)
  assume "10 \<le> x"
  then have "real_of_int 5 * pow2 1 \<le> x" by (simp add: pow2_def)
  then have "real_of_int 5 * pow2 1 \<le> nearestDouble x"
    by (intro nearestDouble_anchor) simp_all
  then show "10 \<le> nearestDouble x" by (simp add: pow2_def)
qed simp

lemma fl_ge_20: "20 \<le> x \<Longrightarrow> atLeastNumber 20 (fl x)"
proof (rule fl_atLeast)
  assume "20 \<le> x"
  then have "real_of_int 5 * pow2 2 \<le> x" by (simp add: pow2_def)
  then have "real_of_int 5 * pow2 2 \<le> nearestDouble x"
    by (intro nearestDouble_anchor) simp_all
  then show "20 \<le> nearestDouble x" by (simp add: pow2_def)
qed simp

lemma nearestDouble_700: "nearestDouble 700 = 700"
  using nearestDouble_eval [of 9 700] by (simp add: pow2_def roundHalfEven_def)

lemma fl_700: "fl 700 = Finite 700"
  by (simp add: fl_def nearestDouble_700 MAX_VALUE_def)

lemma sub_atLeast: "c \<le> b \<Longrightarrow> atLeastNumber 0 (num_sub (Finite b) (Finite c))"
  by (simp add: num_sub_def fl_nonneg)

lemma div_atLeast:
  assumes "atLeastNumber 0 t"
  shows "atLeastNumber 0 (num_div (Finite 700) t)"
proof (cases t)
  case (Finite r)
  then have "0 \<le> r" using assms by (simp add: atLeastNumber_def)
  then show ?thesis using Finite
    by (auto simp: signed_inf_def atLeastNumber_def intro!: fl_nonneg [unfolded atLeastNumber_def])
next
  case PosInf
  then show ?thesis by (simp add: atLeastNumber_def)
next
  case NegInf
  then show ?thesis using assms by (simp add: atLeastNumber_def)
next
  case NaN
  then show ?thesis using assms by (simp add: atLeastNumber_def)
qed

lemma mul_atLeast:
  assumes "0 < w" and "atLeastNumber 0 s"
  shows "atLeastNumber 0 (num_mul (Finite w) s)"
proof (cases s)
  case (Finite r)
  then have "0 \<le> w * r" using assms by (simp add: atLeastNumber_def)
  then show ?thesis using Finite by (simp add: fl_nonneg)
next
  case PosInf
  then show ?thesis using assms(1) by (simp add: atLeastNumber_def signed_inf_def)
next
  case NegInf
  then show ?thesis using assms by (simp add: atLeastNumber_def)
next
  case NaN
  then show ?thesis using assms by (simp add: atLeastNumber_def)
qed

lemma add_left_atLeast:
  assumes "atLeastNumber 0 g"
  shows "atLeastNumber 10 (num_add (Finite 10) g)"
proof (cases g)
  case (Finite r)
  then have "10 \<le> 10 + r" using assms by (simp add: atLeastNumber_def)
  then show ?thesis using Finite by (simp add: fl_ge_10)
next
  case PosInf
  then show ?thesis by (simp add: atLeastNumber_def)
next
  case NegInf
  then show ?thesis using assms by (simp add: atLeastNumber_def)
next
  case NaN
  then show ?thesis using assms by (simp add: atLeastNumber_def)
qed

lemma add_right_atLeast:
  assumes "atLeastNumber 10 a"
  shows "atLeastNumber 20 (num_add a (Finite 10))"
proof (cases a)
  case (Finite r)
  then have "20 \<le> r + 10" using assms by (simp add: atLeastNumber_def)
  then show ?thesis using Finite by (simp add: fl_ge_20)
next
  case PosInf
  then show ?thesis by (simp add: atLeastNumber_def)
next
  case NegInf
  then show ?thesis using assms by (simp add: atLeastNumber_def)
next
  case NaN
  then show ?thesis using assms by (simp add: atLeastNumber_def)
qed

lemma round_atLeast:
  assumes "atLeastNumber 20 a"
  shows "Math_round_number a = PosInf
    \<or> (\<exists>k. Math_round_number a = Finite (real_of_int k) \<and> 20 \<le> k)"
proof (cases a)
  case (Finite r)
  then have "20 \<le> r" using assms by (simp add: atLeastNumber_def)
  then have "20 \<le> \<lfloor>r + 1 / 2\<rfloor>" by linarith
  then show ?thesis using Finite by simp
next
  case PosInf
  then show ?thesis by simp
next
  case NegInf
  then show ?thesis using assms by (simp add: atLeastNumber_def)
next
  case NaN
  then show ?thesis using assms by (simp add: atLeastNumber_def)
qed

subsection \<open>The advance width\<close>

lemma templateNormalize_advance:
  assumes "svgPath \<noteq> []" and "b_width pathBounds \<noteq> 0" and "b_height pathBounds \<noteq> 0"
  shows "advanceWidth (templateNormalize tp svgPath pathBounds guides)
        = Math_round_number
            (num_add
              (num_add (Finite 10)
                (num_mul (Finite (b_width pathBounds))
                  (num_div (Finite 700)
                    (num_sub (Finite (baseline guides)) (Finite (capHeight guides))))))
              (Finite 10))"
proof -
  have font: "num_sub (Finite FONT_CAP_HEIGHT) (Finite FONT_BASELINE) = Finite 700"
    by (simp add: num_sub_def FONT_CAP_HEIGHT_def FONT_BASELINE_def fl_700)
  show ?thesis
    using assms
    by (simp add: templateNormalize_def Let_def font LEFT_SIDE_BEARING_def RIGHT_SIDE_BEARING_def)
qed

text \<open>
  C3 (amended). For a non-empty vectorised cell (a non-empty path string, positive
  bounding-box width and height) and guides with the baseline below the cap height line,
  \<open>templateNormalize\<close> returns
  \<open>advanceWidth = Math.round (leftBearing + width * scale + rightBearing)\<close> with both
  bearings 10 and \<open>scale = 700 / (baseline - capHeight)\<close>, where the difference, the
  quotient, the product and the two sums are each rounded to the nearest double. The
  result is plus infinity (when the quotient or the product overflows) or an integer that
  is at least \<open>2 * leftBearing\<close>.
\<close>

theorem templateNormalize_advanceWidth:
  assumes "svgPath \<noteq> []"
    and "0 < b_width pathBounds"
    and "0 < b_height pathBounds"
    and "capHeight guides < baseline guides"
  shows "advanceWidth (templateNormalize tp svgPath pathBounds guides)
        = Math_round_number
            (num_add
              (num_add (Finite LEFT_SIDE_BEARING)
                (num_mul (Finite (b_width pathBounds))
                  (num_div (Finite (FONT_CAP_HEIGHT - FONT_BASELINE))
                    (num_sub (Finite (baseline guides)) (Finite (capHeight guides))))))
              (Finite RIGHT_SIDE_BEARING))
    \<and> LEFT_SIDE_BEARING = 10 \<and> RIGHT_SIDE_BEARING = 10
    \<and> (advanceWidth (templateNormalize tp svgPath pathBounds guides) = PosInf
       \<or> (\<exists>k. advanceWidth (templateNormalize tp svgPath pathBounds guides)
                = Finite (real_of_int k) \<and> 2 * 10 \<le> k))"
proof -
  let ?t = "num_sub (Finite (baseline guides)) (Finite (capHeight guides))"
  let ?g = "num_mul (Finite (b_width pathBounds)) (num_div (Finite 700) ?t)"
  let ?a = "num_add (num_add (Finite 10) ?g) (Finite 10)"
  have adv: "advanceWidth (templateNormalize tp svgPath pathBounds guides) = Math_round_number ?a"
    using assms(1-3) by (intro templateNormalize_advance) simp_all
  have "atLeastNumber 0 ?t" using assms(4) by (intro sub_atLeast) simp
  then have "atLeastNumber 0 (num_div (Finite 700) ?t)" by (rule div_atLeast)
  then have "atLeastNumber 0 ?g" using assms(2) by (intro mul_atLeast)
  then have "atLeastNumber 10 (num_add (Finite 10) ?g)" by (rule add_left_atLeast)
  then have "atLeastNumber 20 ?a" by (rule add_right_atLeast)
  then have "Math_round_number ?a = PosInf
      \<or> (\<exists>k. Math_round_number ?a = Finite (real_of_int k) \<and> 20 \<le> k)"
    by (rule round_atLeast)
  then show ?thesis
    using adv
    by (simp add: LEFT_SIDE_BEARING_def RIGHT_SIDE_BEARING_def FONT_CAP_HEIGHT_def
        FONT_BASELINE_def)
qed

lemma fl_eval:
  assumes "pow2 e \<le> x" and "x < pow2 (e + 1)" and "- 1022 \<le> e"
    and "real_of_int (roundHalfEven (x / pow2 (e - 52))) * pow2 (e - 52) = r"
    and "r \<le> MAX_VALUE"
  shows "fl x = Finite r"
proof -
  have xpos: "0 < x" using assms(1) pow2_pos [of e] by linarith
  then have "nearestDouble x = r"
    using nearestDouble_eval [of e x] assms(1-4) by simp
  moreover have "0 \<le> nearestDouble x" using xpos by (intro nearestDouble_nonneg) simp
  ultimately show ?thesis using assms(5) MAX_VALUE_pos by (simp add: fl_def Let_def)
qed

lemmas fl_steps = pow2_def roundHalfEven_def Let_def MAX_VALUE_def

lemma advance_7_70:
  "Math_round_number
     (num_add (num_add (Finite 10)
        (num_mul (Finite 7) (num_div (Finite 700) (num_sub (Finite 70) (Finite 0)))))
        (Finite 10)) = Finite 90"
proof -
  have t: "fl 70 = Finite 70"
    by (rule fl_eval [where e = 6]) (simp_all add: fl_steps)
  have s: "fl (700 / 70) = Finite 10"
    by (rule fl_eval [where e = 3]) (simp_all add: fl_steps)
  have g: "fl (7 * 10) = Finite 70"
    by (rule fl_eval [where e = 6]) (simp_all add: fl_steps)
  have a1: "fl (10 + 70) = Finite 80"
    by (rule fl_eval [where e = 6]) (simp_all add: fl_steps)
  have a2: "fl (80 + 10) = Finite 90"
    by (rule fl_eval [where e = 6]) (simp_all add: fl_steps)
  have "num_sub (Finite 70) (Finite 0) = fl 70" by (simp add: num_sub_def)
  then have 1: "num_sub (Finite 70) (Finite 0) = Finite 70" by (simp only: t)
  have "num_div (Finite 700) (Finite 70) = fl (700 / 70)" by simp
  then have 2: "num_div (Finite 700) (Finite 70) = Finite 10" by (simp only: s)
  have 3: "num_mul (Finite 7) (Finite 10) = Finite 70" by (simp only: num_mul.simps g)
  have 4: "num_add (Finite 10) (Finite 70) = Finite 80" by (simp only: num_add.simps a1)
  have 5: "num_add (Finite 80) (Finite 10) = Finite 90" by (simp only: num_add.simps a2)
  show ?thesis by (simp only: 1 2 3 4 5) simp
qed

theorem templateNormalize_advanceWidth_witness:
  "advanceWidth (templateNormalize (\<lambda>f s. s) ''M 0 0 L 7 0 L 7 7 Z''
      \<lparr>b_x = 0, b_y = 0, b_width = 7, b_height = 7\<rparr>
      \<lparr>baseline = 70, capHeight = 0, xHeight = 30, descender = 90, writingAreaHeight = 100\<rparr>)
    = Finite 90"
  using templateNormalize_advanceWidth [of "''M 0 0 L 7 0 L 7 7 Z''"
      "\<lparr>b_x = 0, b_y = 0, b_width = 7, b_height = 7\<rparr>"
      "\<lparr>baseline = 70, capHeight = 0, xHeight = 30, descender = 90, writingAreaHeight = 100\<rparr>"
      "\<lambda>f s. s", THEN conjunct1]
  by (simp add: LEFT_SIDE_BEARING_def RIGHT_SIDE_BEARING_def FONT_CAP_HEIGHT_def
      FONT_BASELINE_def advance_7_70)

lemma advance_45_72:
  "Math_round_number
     (num_add (num_add (Finite 10)
        (num_mul (Finite 45) (num_div (Finite 700) (num_sub (Finite 72) (Finite 0)))))
        (Finite 10)) = Finite 457"
proof -
  have t: "fl 72 = Finite 72"
    by (rule fl_eval [where e = 6]) (simp_all add: fl_steps)
  have s: "fl (700 / 72) = Finite (1368281136787911 / 140737488355328)"
    by (rule fl_eval [where e = 3]) (simp_all add: fl_steps)
  have g: "fl (45 * (1368281136787911 / 140737488355328))
      = Finite (7696581394431999 / 17592186044416)"
    by (rule fl_eval [where e = 8]) (simp_all add: fl_steps)
  have a1: "fl (10 + 7696581394431999 / 17592186044416)
      = Finite (7872503254876159 / 17592186044416)"
    by (rule fl_eval [where e = 8]) (simp_all add: fl_steps)
  have a2: "fl (7872503254876159 / 17592186044416 + 10)
      = Finite (8048425115320319 / 17592186044416)"
    by (rule fl_eval [where e = 8]) (simp_all add: fl_steps)
  have "num_sub (Finite 72) (Finite 0) = fl 72" by (simp add: num_sub_def)
  then have 1: "num_sub (Finite 72) (Finite 0) = Finite 72" by (simp only: t)
  have "num_div (Finite 700) (Finite 72) = fl (700 / 72)" by simp
  then have 2: "num_div (Finite 700) (Finite 72) = Finite (1368281136787911 / 140737488355328)"
    by (simp only: s)
  have 3: "num_mul (Finite 45) (Finite (1368281136787911 / 140737488355328))
      = Finite (7696581394431999 / 17592186044416)"
    by (simp only: num_mul.simps g)
  have 4: "num_add (Finite 10) (Finite (7696581394431999 / 17592186044416))
      = Finite (7872503254876159 / 17592186044416)"
    by (simp only: num_add.simps a1)
  have 5: "num_add (Finite (7872503254876159 / 17592186044416)) (Finite 10)
      = Finite (8048425115320319 / 17592186044416)"
    by (simp only: num_add.simps a2)
  show ?thesis
    by (simp only: 1 2 3 4 5) simp
qed

lemma advance_51_680:
  "Math_round_number
     (num_add (num_add (Finite 10)
        (num_mul (Finite 51) (num_div (Finite 700) (num_sub (Finite 680) (Finite 0)))))
        (Finite 10)) = Finite 73
   \<and> num_add
        (Math_round_number
          (num_mul (Finite 51) (num_div (Finite 700) (num_sub (Finite 680) (Finite 0)))))
        (Finite 20) = Finite 72"
proof -
  have t: "fl 680 = Finite 680"
    by (rule fl_eval [where e = 9]) (simp_all add: fl_steps)
  have s: "fl (700 / 680) = Finite (579507304992527 / 562949953421312)"
    by (rule fl_eval [where e = 0]) (simp_all add: fl_steps)
  have g: "fl (51 * (579507304992527 / 562949953421312))
      = Finite (7388718138654719 / 140737488355328)"
    by (rule fl_eval [where e = 5]) (simp_all add: fl_steps)
  have a1: "fl (10 + 7388718138654719 / 140737488355328)
      = Finite (8796093022207999 / 140737488355328)"
    by (rule fl_eval [where e = 5]) (simp_all add: fl_steps)
  have a2: "fl (8796093022207999 / 140737488355328 + 10) = Finite (145 / 2)"
    by (rule fl_eval [where e = 6]) (simp_all add: fl_steps)
  have r: "fl (52 + 20) = Finite 72"
    by (rule fl_eval [where e = 6]) (simp_all add: fl_steps)
  have "num_sub (Finite 680) (Finite 0) = fl 680" by (simp add: num_sub_def)
  then have 1: "num_sub (Finite 680) (Finite 0) = Finite 680" by (simp only: t)
  have "num_div (Finite 700) (Finite 680) = fl (700 / 680)" by simp
  then have 2: "num_div (Finite 700) (Finite 680) = Finite (579507304992527 / 562949953421312)"
    by (simp only: s)
  have 3: "num_mul (Finite 51) (Finite (579507304992527 / 562949953421312))
      = Finite (7388718138654719 / 140737488355328)"
    by (simp only: num_mul.simps g)
  have 4: "num_add (Finite 10) (Finite (7388718138654719 / 140737488355328))
      = Finite (8796093022207999 / 140737488355328)"
    by (simp only: num_add.simps a1)
  have 5: "num_add (Finite (8796093022207999 / 140737488355328)) (Finite 10) = Finite (145 / 2)"
    by (simp only: num_add.simps a2)
  have 6: "Math_round_number (Finite (7388718138654719 / 140737488355328)) = Finite 52"
    by simp
  have 7: "num_add (Finite 52) (Finite 20) = Finite 72"
    by (simp only: num_add.simps r)
  show ?thesis
    by (simp only: 1 2 3 4 5 6 7) simp
qed

text \<open>
  The claim's two formulas, read over exact numbers, give 458 for a cell 45 wide with 72
  pixels between cap height and baseline (\<open>45 * 700 / 72 = 437.5\<close>), where the source,
  whose quotient is rounded down, returns 457. Read in double arithmetic, the second
  formula \<open>round (width * scale) + 2 * leftBearing\<close> gives 72 for a cell 51 wide with 680
  pixels between the two lines, where the source returns 73.
\<close>

theorem advanceWidth_not_split:
  "advanceWidth (templateNormalize (\<lambda>f s. s) ''M 0 0 L 45 0 L 45 45 Z''
      \<lparr>b_x = 0, b_y = 0, b_width = 45, b_height = 45\<rparr>
      \<lparr>baseline = 72, capHeight = 0, xHeight = 30, descender = 90, writingAreaHeight = 100\<rparr>)
    = Finite 457
   \<and> Math_round (LEFT_SIDE_BEARING + 45 * ((FONT_CAP_HEIGHT - FONT_BASELINE) / (72 - 0))
        + RIGHT_SIDE_BEARING) = 458
   \<and> Math_round (45 * ((FONT_CAP_HEIGHT - FONT_BASELINE) / (72 - 0))) + 2 * 10 = 458
   \<and> advanceWidth (templateNormalize (\<lambda>f s. s) ''M 0 0 L 51 0 L 51 51 Z''
      \<lparr>b_x = 0, b_y = 0, b_width = 51, b_height = 51\<rparr>
      \<lparr>baseline = 680, capHeight = 0, xHeight = 300, descender = 800, writingAreaHeight = 900\<rparr>)
    = Finite 73
   \<and> num_add
        (Math_round_number
          (num_mul (Finite 51) (num_div (Finite 700) (num_sub (Finite 680) (Finite 0)))))
        (Finite (2 * 10)) = Finite 72"
proof -
  have a: "advanceWidth (templateNormalize (\<lambda>f s. s) ''M 0 0 L 45 0 L 45 45 Z''
      \<lparr>b_x = 0, b_y = 0, b_width = 45, b_height = 45\<rparr>
      \<lparr>baseline = 72, capHeight = 0, xHeight = 30, descender = 90, writingAreaHeight = 100\<rparr>)
    = Finite 457"
    using templateNormalize_advance [of "''M 0 0 L 45 0 L 45 45 Z''"
      "\<lparr>b_x = 0, b_y = 0, b_width = 45, b_height = 45\<rparr>" "\<lambda>f s. s"
      "\<lparr>baseline = 72, capHeight = 0, xHeight = 30, descender = 90, writingAreaHeight = 100\<rparr>"]
    by (simp add: advance_45_72)
  have b: "Math_round (LEFT_SIDE_BEARING + 45 * ((FONT_CAP_HEIGHT - FONT_BASELINE) / (72 - 0))
        + RIGHT_SIDE_BEARING) = 458"
    "Math_round (45 * ((FONT_CAP_HEIGHT - FONT_BASELINE) / (72 - 0))) + 2 * 10 = 458"
    by (simp_all add: Math_round_def LEFT_SIDE_BEARING_def RIGHT_SIDE_BEARING_def
        FONT_CAP_HEIGHT_def FONT_BASELINE_def)
  have c: "advanceWidth (templateNormalize (\<lambda>f s. s) ''M 0 0 L 51 0 L 51 51 Z''
      \<lparr>b_x = 0, b_y = 0, b_width = 51, b_height = 51\<rparr>
      \<lparr>baseline = 680, capHeight = 0, xHeight = 300, descender = 800, writingAreaHeight = 900\<rparr>)
    = Finite 73"
    using templateNormalize_advance [of "''M 0 0 L 51 0 L 51 51 Z''"
      "\<lparr>b_x = 0, b_y = 0, b_width = 51, b_height = 51\<rparr>" "\<lambda>f s. s"
      "\<lparr>baseline = 680, capHeight = 0, xHeight = 300, descender = 800, writingAreaHeight = 900\<rparr>"]
    by (simp add: advance_51_680)
  have d: "num_add
        (Math_round_number
          (num_mul (Finite 51) (num_div (Finite 700) (num_sub (Finite 680) (Finite 0)))))
        (Finite (2 * 10)) = Finite 72"
    using advance_51_680 by simp
  show ?thesis using a b c d by (intro conjI)
qed

text \<open>
  C6. The blank-template renderer is documented to match the printed template, whose
  markers are 8 mm squares, the size \<open>getTemplateCoordinates\<close> uses to place the marker
  centres. At the default configuration (letter, 150 dpi) \<open>drawMarkers\<close> strokes squares of
  side 13 pixels (one percent of the page width) while the compute-time marker size is
  47 pixels.
\<close>

theorem drawMarkers_size_mismatch:
  "strokeSides (drawMarkers (getTemplateCoordinates DEFAULT_TEMPLATE_CONFIG))
      = [(13, 13), (13, 13), (13, 13), (13, 13)]
   \<and> getTemplateCoordinates_markerSize DEFAULT_TEMPLATE_CONFIG = 47
   \<and> mmToPixels 8 (dpi DEFAULT_TEMPLATE_CONFIG) = 47"
  by (simp add: drawMarkers_def drawMarker_def drawMarkers_markerSize_def
      getTemplateCoordinates_def getTemplateCoordinates_markerSize_def
      DEFAULT_TEMPLATE_CONFIG_def mmToPixels_def Math_round_def MARKER_SIZE_MM_def Let_def)

subsection \<open>The contour of largest area\<close>



subsection \<open>Hole embedding and winding\<close>



lemmas eval_defs = splitIntoContours_def splitStep_def contourArea_def calculateSignedArea_def
  mkCmd_def Let_def extractPointsFromCommands.simps(2) finalOutlineContour_def finalHoleContour_def
  emittedForOutline_def emittedForHole_def emittedOutlines_def emittedHoles_def contoursToEmit_def largestContour_def
  reverseContour_def reverseStep_def

lemmas emit_defs = normalizedSvgToOpentypePath_def emitContourToPath_def emitCommand_def
  Math_round_def


text \<open>
  C1 fails on a contour that is closed by \<open>Z\<close> alone. The outline \<open>M 0 0 L 0 2 L 2 2 Z\<close> has
  signed area -2, so it violates the outline convention and is reversed. The parser gives
  the closing command the start point of the subpath, and \<open>reverseContour\<close> takes its
  \<open>lastPoint\<close> from the last command with coordinates, which is that \<open>Z\<close>: the reversed
  contour starts at (0,0) instead of (2,2), the vertex (2,2) is lost, and what is emitted
  has signed area 0, not a positive one. When the same triangle ends with an explicit
  \<open>L 0 0\<close> before the \<open>Z\<close>, the reversal keeps all vertices and the emitted contour has
  area +2.
\<close>

theorem reversed_outline_loses_vertex:
  "contourArea [mkCmd ''M'' (Some 0) (Some 0), mkCmd ''L'' (Some 0) (Some 2),
       mkCmd ''L'' (Some 2) (Some 2), mkCmd ''Z'' (Some 0) (Some 0)] = - 2
   \<and> emittedOutlines [[mkCmd ''M'' (Some 0) (Some 0), mkCmd ''L'' (Some 0) (Some 2),
       mkCmd ''L'' (Some 2) (Some 2), mkCmd ''Z'' (Some 0) (Some 0)]] []
     = [[mkCmd ''M'' (Some 0) (Some 0), mkCmd ''L'' (Some 0) (Some 2),
         mkCmd ''L'' (Some 0) (Some 0), mkCmd ''Z'' None None]]
   \<and> contourArea [mkCmd ''M'' (Some 0) (Some 0), mkCmd ''L'' (Some 0) (Some 2),
         mkCmd ''L'' (Some 0) (Some 0), mkCmd ''Z'' None None] = 0
   \<and> normalizedSvgToOpentypePath [[mkCmd ''M'' (Some 0) (Some 0), mkCmd ''L'' (Some 0) (Some 2),
       mkCmd ''L'' (Some 2) (Some 2), mkCmd ''Z'' (Some 0) (Some 0)]] []
     = [MoveTo 0 0, LineTo 0 2, LineTo 0 0, ClosePath]
   \<and> contourArea [mkCmd ''M'' (Some 0) (Some 0), mkCmd ''L'' (Some 0) (Some 2),
       mkCmd ''L'' (Some 2) (Some 2), mkCmd ''L'' (Some 0) (Some 0),
       mkCmd ''Z'' (Some 0) (Some 0)] = - 2
   \<and> emittedOutlines [[mkCmd ''M'' (Some 0) (Some 0), mkCmd ''L'' (Some 0) (Some 2),
       mkCmd ''L'' (Some 2) (Some 2), mkCmd ''L'' (Some 0) (Some 0),
       mkCmd ''Z'' (Some 0) (Some 0)]] []
     = [[mkCmd ''M'' (Some 0) (Some 0), mkCmd ''L'' (Some 2) (Some 2),
         mkCmd ''L'' (Some 0) (Some 2), mkCmd ''L'' (Some 0) (Some 0), mkCmd ''Z'' None None]]
   \<and> contourArea [mkCmd ''M'' (Some 0) (Some 0), mkCmd ''L'' (Some 2) (Some 2),
         mkCmd ''L'' (Some 0) (Some 2), mkCmd ''L'' (Some 0) (Some 0), mkCmd ''Z'' None None] = 2"
  by (simp add: eval_defs emit_defs upt_conv_Cons)

subsection \<open>Termination of the thinning loop\<close>

lemma thinLoop_iterations:
  "iterations \<le> maxIterations \<Longrightarrow> snd (thinLoop w h g changed iterations) \<le> maxIterations"
proof (induction w h g changed iterations rule: thinLoop.induct)
  case (1 w h g changed iterations)
  show ?case
  proof (cases "changed \<and> iterations < maxIterations")
    case True
    then have "iterations + 1 \<le> maxIterations" by simp
    then show ?thesis
      using True "1.IH" [OF True refl refl refl refl]
      by (subst thinLoop.simps) (simp add: Let_def)
  next
    case False
    then show ?thesis
      using "1.prems" by (subst thinLoop.simps) auto
  qed
qed

lemma thinLoop_stops:
  assumes "iterations < maxIterations"
    and "toRemove shouldRemoveStep1 w h g = []"
    and "toRemove shouldRemoveStep2 w h g = []"
  shows "thinLoop w h g True iterations = (g, iterations + 1)"
proof -
  have "thinLoop w h g True iterations = thinLoop w h g False (iterations + 1)"
    using assms by (subst thinLoop.simps) (simp add: Let_def removePixels_def)
  also have "\<dots> = (g, iterations + 1)"
    by (subst thinLoop.simps) simp
  finally show ?thesis .
qed

text \<open>
  C8. The thinning loop is a total function of its state, so \<open>zhangSuenThinning\<close> returns
  for every image. Its iteration count never exceeds the cap of 1000; a pass in which
  neither sub-iteration removes a pixel is the last one; and at the cap the loop stops
  whatever the grid.
\<close>

theorem zhangSuenThinning_terminates:
  "zhangSuenIterations input \<le> 1000
   \<and> (iterations < 1000 \<and> toRemove shouldRemoveStep1 w h g = []
        \<and> toRemove shouldRemoveStep2 w h g = []
      \<longrightarrow> thinLoop w h g True iterations = (g, iterations + 1))
   \<and> thinLoop w h g changed 1000 = (g, 1000)"
proof (intro conjI impI)
  show "zhangSuenIterations input \<le> 1000"
    using thinLoop_iterations [of 0 "width input" "height input" "makeGrid input" True]
    by (simp add: zhangSuenIterations_def maxIterations_def)
next
  assume "iterations < 1000 \<and> toRemove shouldRemoveStep1 w h g = []
        \<and> toRemove shouldRemoveStep2 w h g = []"
  then show "thinLoop w h g True iterations = (g, iterations + 1)"
    using thinLoop_stops [of iterations w h g] by (simp add: maxIterations_def)
next
  show "thinLoop w h g changed 1000 = (g, 1000)"
    by (subst thinLoop.simps) (simp add: maxIterations_def)
qed

theorem zhangSuenThinning_terminates_witness:
  "zhangSuenIterations \<lparr>width = 5, height = 5, data =
      [0,0,0,255, 0,0,0,255, 0,0,0,255, 0,0,0,255, 0,0,0,255,
       0,0,0,255, 255,255,255,255, 255,255,255,255, 255,255,255,255, 0,0,0,255,
       0,0,0,255, 255,255,255,255, 255,255,255,255, 255,255,255,255, 0,0,0,255,
       0,0,0,255, 255,255,255,255, 255,255,255,255, 255,255,255,255, 0,0,0,255,
       0,0,0,255, 0,0,0,255, 0,0,0,255, 0,0,0,255, 0,0,0,255]\<rparr> \<le> 1000
   \<and> thinLoop 5 5 [[0,0,0,0,0], [0,0,0,0,0], [0,0,1,0,0], [0,0,0,0,0], [0,0,0,0,0]] True 1
      = ([[0,0,0,0,0], [0,0,0,0,0], [0,0,1,0,0], [0,0,0,0,0], [0,0,0,0,0]], 2)"
proof -
  have a: "toRemove shouldRemoveStep1 5 5
      [[0,0,0,0,0], [0,0,0,0,0], [0,0,1,0,0], [0,0,0,0,0], [0,0,0,0,0]] = []"
    by code_simp
  have b: "toRemove shouldRemoveStep2 5 5
      [[0,0,0,0,0], [0,0,0,0,0], [0,0,1,0,0], [0,0,0,0,0], [0,0,0,0,0]] = []"
    by code_simp
  show ?thesis
    using a b zhangSuenThinning_terminates [of _ 1 5 5
        "[[0,0,0,0,0], [0,0,0,0,0], [0,0,1,0,0], [0,0,0,0,0], [0,0,0,0,0]]" True]
    by simp
qed

subsection \<open>Missing corner markers\<close>

text \<open>
  C5. When OpenCV is loaded and fewer than all four corner markers are found in the scan,
  \<open>processTemplatePage\<close> returns a result with \<open>success = false\<close>, a non-empty error
  message, no glyphs, the partial marker detection result (the markers that were found),
  and the debug images filled in, the thresholded one being the binarised scan.
\<close>

theorem processTemplatePage_markers_missing:
  assumes "loadOpenCV cv = None"
    and "m = detectCornerMarkers cv (imageDataToMat cv scan)"
    and "md_topLeft m = None \<or> md_topRight m = None \<or> md_bottomLeft m = None
          \<or> md_bottomRight m = None"
  shows "pr_success (processTemplatePage cv scan options) = False
    \<and> (\<exists>message. pr_error (processTemplatePage cv scan options) = Some message \<and> message \<noteq> [])
    \<and> pr_glyphs (processTemplatePage cv scan options) = []
    \<and> pr_markers (processTemplatePage cv scan options) = Some m
    \<and> md_success m = False
    \<and> di_thresholded (pr_debugImages (processTemplatePage cv scan options))
        = Some (matToImageData cv (otsuBinary cv (imageDataToMat cv scan)))
    \<and> di_warped (pr_debugImages (processTemplatePage cv scan options))
        = Some (matToImageData cv (imageDataToMat cv scan))
    \<and> di_subtracted (pr_debugImages (processTemplatePage cv scan options))
        = Some (matToImageData cv (imageDataToMat cv scan))
    \<and> di_cleaned (pr_debugImages (processTemplatePage cv scan options))
        = Some (matToImageData cv (imageDataToMat cv scan))"
proof -
  have ns: "\<not> md_success m"
    using assms(2,3) by (auto simp: detectCornerMarkers_def Let_def split: prod.splits)
  have db: "md_debugBinary m = Some (otsuBinary cv (imageDataToMat cv scan))"
    using assms(2) by (simp add: detectCornerMarkers_def Let_def split: prod.splits)
  have pp: "processPage cv scan (blankTemplate cv (po_config options))
        (getTemplateCoordinates (po_config options)) options
      = Some \<lparr>pp_warped = imageDataToMat cv scan, pp_subtracted = imageDataToMat cv scan,
              pp_cleaned = imageDataToMat cv scan,
              pp_thresholded = Some (otsuBinary cv (imageDataToMat cv scan)),
              pp_markers = m, pp_homography = None\<rparr>"
    using ns db assms(2) by (simp add: processPage_def Let_def)
  show ?thesis
    using ns by (simp add: processTemplatePage_def assms(1) pp Let_def)
qed

theorem processTemplatePage_markers_missing_witness:
  "pr_success (processTemplatePage
      \<lparr>loadOpenCV = None, imageSize = (\<lambda>i. (100, 100)), otsuBinary = (\<lambda>i. i + 1),
       squareCandidates = (\<lambda>i. [\<lparr>dm_center = \<lparr>px = 5, py = 5\<rparr>, dm_corners = [], dm_area = 16\<rparr>]),
       findHomography = (\<lambda>m c. Some (0::nat)), warpToTemplate = (\<lambda>i h c. i),
       subtractTemplate = (\<lambda>i j t. i), morphologicalCleanup = (\<lambda>i a b. i),
       imageDataToMat = (\<lambda>i. i), matToImageData = (\<lambda>i. i), blankTemplate = (\<lambda>c. 0),
       extractGlyphs = (\<lambda>p c. [0::nat])\<rparr>
      (7::nat)
      \<lparr>po_config = DEFAULT_TEMPLATE_CONFIG, po_subtractThreshold = 30, po_morphologyCloseSize = 3,
       po_morphologyOpenSize = 2, po_minComponentArea = 50\<rparr>) = False
   \<and> pr_markers (processTemplatePage
      \<lparr>loadOpenCV = None, imageSize = (\<lambda>i. (100, 100)), otsuBinary = (\<lambda>i. i + 1),
       squareCandidates = (\<lambda>i. [\<lparr>dm_center = \<lparr>px = 5, py = 5\<rparr>, dm_corners = [], dm_area = 16\<rparr>]),
       findHomography = (\<lambda>m c. Some (0::nat)), warpToTemplate = (\<lambda>i h c. i),
       subtractTemplate = (\<lambda>i j t. i), morphologicalCleanup = (\<lambda>i a b. i),
       imageDataToMat = (\<lambda>i. i), matToImageData = (\<lambda>i. i), blankTemplate = (\<lambda>c. 0),
       extractGlyphs = (\<lambda>p c. [0::nat])\<rparr>
      (7::nat)
      \<lparr>po_config = DEFAULT_TEMPLATE_CONFIG, po_subtractThreshold = 30, po_morphologyCloseSize = 3,
       po_morphologyOpenSize = 2, po_minComponentArea = 50\<rparr>)
     = Some \<lparr>md_topLeft = Some \<lparr>dm_center = \<lparr>px = 5, py = 5\<rparr>, dm_corners = [], dm_area = 16\<rparr>,
             md_topRight = None, md_bottomLeft = None, md_bottomRight = None,
             md_success = False, md_debugBinary = Some 8\<rparr>
   \<and> di_thresholded (pr_debugImages (processTemplatePage
      \<lparr>loadOpenCV = None, imageSize = (\<lambda>i. (100, 100)), otsuBinary = (\<lambda>i. i + 1),
       squareCandidates = (\<lambda>i. [\<lparr>dm_center = \<lparr>px = 5, py = 5\<rparr>, dm_corners = [], dm_area = 16\<rparr>]),
       findHomography = (\<lambda>m c. Some (0::nat)), warpToTemplate = (\<lambda>i h c. i),
       subtractTemplate = (\<lambda>i j t. i), morphologicalCleanup = (\<lambda>i a b. i),
       imageDataToMat = (\<lambda>i. i), matToImageData = (\<lambda>i. i), blankTemplate = (\<lambda>c. 0),
       extractGlyphs = (\<lambda>p c. [0::nat])\<rparr>
      (7::nat)
      \<lparr>po_config = DEFAULT_TEMPLATE_CONFIG, po_subtractThreshold = 30, po_morphologyCloseSize = 3,
       po_morphologyOpenSize = 2, po_minComponentArea = 50\<rparr>)) = Some 8"
proof -
  let ?cv = "\<lparr>loadOpenCV = None, imageSize = (\<lambda>i::nat. (100::real, 100::real)), otsuBinary = (\<lambda>i. i + 1),
       squareCandidates = (\<lambda>i. [\<lparr>dm_center = \<lparr>px = 5, py = 5\<rparr>, dm_corners = [], dm_area = 16\<rparr>]),
       findHomography = (\<lambda>m c. Some (0::nat)), warpToTemplate = (\<lambda>i h c. i),
       subtractTemplate = (\<lambda>i j t. i), morphologicalCleanup = (\<lambda>i a b. i),
       imageDataToMat = (\<lambda>i. i), matToImageData = (\<lambda>i. i), blankTemplate = (\<lambda>c. 0),
       extractGlyphs = (\<lambda>p c. [0::nat])\<rparr>"
  have m: "detectCornerMarkers ?cv (imageDataToMat ?cv 7)
     = \<lparr>md_topLeft = Some \<lparr>dm_center = \<lparr>px = 5, py = 5\<rparr>, dm_corners = [], dm_area = 16\<rparr>,
             md_topRight = None, md_bottomLeft = None, md_bottomRight = None,
             md_success = False, md_debugBinary = Some 8\<rparr>"
    by (simp add: detectCornerMarkers_def bestInRegion_def Let_def)
  show ?thesis
    using processTemplatePage_markers_missing [of ?cv _ 7, OF _ m [symmetric]]
    by simp
qed

subsection \<open>Empty cells\<close>

lemma scan_invariant:
  "case foldl (scanStep img) (a, b, 0, 0, False) ps of (minX, minY, maxX, maxY, hasContent) \<Rightarrow>
     (hasContent \<longleftrightarrow> (\<exists>p \<in> set ps. isInk img p))
     \<and> (\<not> hasContent \<longrightarrow> minX = a \<and> minY = b \<and> maxX = 0 \<and> maxY = 0)
     \<and> (hasContent \<longrightarrow>
          (\<forall>p \<in> set ps. isInk img p \<longrightarrow>
              minX \<le> int (fst p) \<and> int (fst p) \<le> maxX \<and> minY \<le> int (snd p) \<and> int (snd p) \<le> maxY)
          \<and> ((\<exists>p \<in> set ps. isInk img p \<and> int (fst p) = minX) \<or> minX = a)
          \<and> ((\<exists>p \<in> set ps. isInk img p \<and> int (snd p) = minY) \<or> minY = b)
          \<and> (\<exists>p \<in> set ps. isInk img p \<and> int (fst p) = maxX)
          \<and> (\<exists>p \<in> set ps. isInk img p \<and> int (snd p) = maxY))"
proof (induction ps rule: rev_induct)
  case Nil
  then show ?case by simp
next
  case (snoc p ps)
  obtain minX minY maxX maxY hasContent where
    st: "foldl (scanStep img) (a, b, 0, 0, False) ps = (minX, minY, maxX, maxY, hasContent)"
    by (metis prod_cases5)
  obtain x y where p: "p = (x, y)" by (cases p)
  show ?case
  proof (cases "isInk img p")
    case False
    then show ?thesis
      using snoc st p by (auto simp: scanStep_def isInk_def)
  next
    case True
    then have step: "foldl (scanStep img) (a, b, 0, 0, False) (ps @ [p])
        = (min minX (int x), min minY (int y), max maxX (int x), max maxY (int y), True)"
      using st p by (simp add: scanStep_def isInk_def)
    show ?thesis
    proof (cases hasContent)
      case False
      then show ?thesis
        using snoc st p True unfolding step
        by (auto simp: min_def max_def)
    next
      case hc: True
      have "\<forall>q \<in> set ps. isInk img q \<longrightarrow>
              minX \<le> int (fst q) \<and> int (fst q) \<le> maxX \<and> minY \<le> int (snd q) \<and> int (snd q) \<le> maxY"
        and "(\<exists>q \<in> set ps. isInk img q \<and> int (fst q) = minX) \<or> minX = a"
        and "(\<exists>q \<in> set ps. isInk img q \<and> int (snd q) = minY) \<or> minY = b"
        and "\<exists>q \<in> set ps. isInk img q \<and> int (fst q) = maxX"
        and "\<exists>q \<in> set ps. isInk img q \<and> int (snd q) = maxY"
        using snoc st hc by auto
      then show ?thesis
        using True p unfolding step
        by (auto simp: min_def max_def)
    qed
  qed
qed


lemma set_pixelOrder: "set (pixelOrder img) = {(x, y). x < width img \<and> y < height img}"
  by (auto simp: pixelOrder_def)

lemma inkPixels_alt: "inkPixels img = {p \<in> set (pixelOrder img). isInk img p}"
  by (auto simp: inkPixels_def set_pixelOrder isInk_def)

lemma contentBounds_facts:
  assumes "contentBounds img = (minX, minY, maxX, maxY, hasContent)"
  shows "hasContent \<longleftrightarrow> inkPixels img \<noteq> {}"
    and "hasContent \<Longrightarrow> p \<in> inkPixels img \<Longrightarrow>
          minX \<le> int (fst p) \<and> int (fst p) \<le> maxX \<and> minY \<le> int (snd p) \<and> int (snd p) \<le> maxY"
    and "hasContent \<Longrightarrow> (\<exists>p \<in> inkPixels img. int (fst p) = minX) \<or> minX = int (width img)"
    and "hasContent \<Longrightarrow> (\<exists>p \<in> inkPixels img. int (snd p) = minY) \<or> minY = int (height img)"
    and "hasContent \<Longrightarrow> \<exists>p \<in> inkPixels img. int (fst p) = maxX"
    and "hasContent \<Longrightarrow> \<exists>p \<in> inkPixels img. int (snd p) = maxY"
  using scan_invariant [where img = img and a = "int (width img)" and b = "int (height img)"
      and ps = "pixelOrder img"] assms
  unfolding contentBounds_def inkPixels_alt by auto

lemma inkPixels_range: "p \<in> inkPixels img \<Longrightarrow> fst p < width img \<and> snd p < height img"
  by (auto simp: inkPixels_def)

lemma early_return_iff:
  assumes cb: "contentBounds img = (minX, minY, maxX, maxY, hasContent)"
  shows "(\<not> hasContent \<or> maxX \<le> minX \<or> maxY \<le> minY)
    \<longleftrightarrow> (inkPixels img = {} \<or> (\<exists>c. \<forall>p \<in> inkPixels img. fst p = c)
          \<or> (\<exists>c. \<forall>p \<in> inkPixels img. snd p = c))"
proof (cases hasContent)
  case False
  then show ?thesis using contentBounds_facts(1) [OF cb] by simp
next
  case True
  note f = contentBounds_facts [OF cb]
  have ne: "inkPixels img \<noteq> {}" using f(1) True by simp
  have colx: "maxX \<le> minX \<longleftrightarrow> (\<exists>c. \<forall>p \<in> inkPixels img. fst p = c)"
  proof
    assume le: "maxX \<le> minX"
    obtain q where q: "q \<in> inkPixels img" "int (fst q) = maxX" using f(5) [OF True] by blast
    have "\<forall>p \<in> inkPixels img. fst p = fst q"
    proof
      fix p assume "p \<in> inkPixels img"
      then have "minX \<le> int (fst p) \<and> int (fst p) \<le> maxX" using f(2) [OF True] by blast
      then show "fst p = fst q" using le q(2) by linarith
    qed
    then show "\<exists>c. \<forall>p \<in> inkPixels img. fst p = c" by blast
  next
    assume "\<exists>c. \<forall>p \<in> inkPixels img. fst p = c"
    then obtain c where c: "\<forall>p \<in> inkPixels img. fst p = c" by blast
    obtain q where q: "q \<in> inkPixels img" "int (fst q) = maxX" using f(5) [OF True] by blast
    then have mx: "maxX = int c" using c by auto
    have "c < width img" using q(1) c inkPixels_range by fastforce
    then show "maxX \<le> minX" using f(3) [OF True] c mx by auto
  qed
  have coly: "maxY \<le> minY \<longleftrightarrow> (\<exists>c. \<forall>p \<in> inkPixels img. snd p = c)"
  proof
    assume le: "maxY \<le> minY"
    obtain q where q: "q \<in> inkPixels img" "int (snd q) = maxY" using f(6) [OF True] by blast
    have "\<forall>p \<in> inkPixels img. snd p = snd q"
    proof
      fix p assume "p \<in> inkPixels img"
      then have "minY \<le> int (snd p) \<and> int (snd p) \<le> maxY" using f(2) [OF True] by blast
      then show "snd p = snd q" using le q(2) by linarith
    qed
    then show "\<exists>c. \<forall>p \<in> inkPixels img. snd p = c" by blast
  next
    assume "\<exists>c. \<forall>p \<in> inkPixels img. snd p = c"
    then obtain c where c: "\<forall>p \<in> inkPixels img. snd p = c" by blast
    obtain q where q: "q \<in> inkPixels img" "int (snd q) = maxY" using f(6) [OF True] by blast
    then have mx: "maxY = int c" using c by auto
    have "c < height img" using q(1) c inkPixels_range by fastforce
    then show "maxY \<le> minY" using f(4) [OF True] c mx by auto
  qed
  show ?thesis using True ne colx coly by simp
qed

lemma padded_bounds_nonzero:
  assumes cb: "contentBounds img = (minX, minY, maxX, maxY, hasContent)"
    and hc: hasContent and lt: "minX < maxX"
  shows "0 < min (int (width img) - 1) (maxX + 2) - max 0 (minX - 2) + 1"
proof -
  obtain q where q: "q \<in> inkPixels img" "int (fst q) = maxX"
    using contentBounds_facts(5) [OF cb hc] by blast
  then have "maxX \<le> int (width img) - 1" "0 \<le> maxX"
    using inkPixels_range [OF q(1)] by auto
  then show ?thesis using lt by auto
qed

text \<open>
  C10. \<open>vectorizeCell\<close> returns \<open>isEmpty = true\<close> together with the empty path and the bounds
  \<open>{0, 0, 0, 0}\<close> exactly when the mask has no ink pixel (first channel above 128), or all
  ink pixels lie in one pixel column, or all lie in one pixel row: these are the cases
  \<open>!hasContent\<close>, \<open>maxX <= minX\<close> and \<open>maxY <= minY\<close> of the early return. A vertical stroke
  one pixel wide is such a case although ink is present.
\<close>

theorem vectorizeCell_empty_iff:
  "(vr_isEmpty (vectorizeCell trace img) \<and> vr_svgPath (vectorizeCell trace img) = []
      \<and> vr_bounds (vectorizeCell trace img) = \<lparr>b_x = 0, b_y = 0, b_width = 0, b_height = 0\<rparr>)
   \<longleftrightarrow> (inkPixels img = {} \<or> (\<exists>c. \<forall>p \<in> inkPixels img. fst p = c)
          \<or> (\<exists>c. \<forall>p \<in> inkPixels img. snd p = c))"
proof -
  obtain minX minY maxX maxY hasContent where
    cb: "contentBounds img = (minX, minY, maxX, maxY, hasContent)"
    by (metis prod_cases5)
  show ?thesis
  proof (cases "\<not> hasContent \<or> maxX \<le> minX \<or> maxY \<le> minY")
    case True
    then have "vectorizeCell trace img
        = \<lparr>vr_svgPath = [], vr_bounds = \<lparr>b_x = 0, b_y = 0, b_width = 0, b_height = 0\<rparr>,
           vr_isEmpty = True\<rparr>"
      using cb by (simp add: vectorizeCell_def)
    then show ?thesis
      using True early_return_iff [OF cb] by simp
  next
    case False
    then have hc: hasContent and lt: "minX < maxX" by auto
    define E where "E = min (int (width img) - 1) (maxX + 2) - max 0 (minX - 2) + 1"
    have w: "0 < E"
      unfolding E_def by (rule padded_bounds_nonzero [OF cb hc lt])
    have "b_width (vr_bounds (vectorizeCell trace img)) = real_of_int E"
      using False cb unfolding E_def
      by (simp add: vectorizeCell_def Let_def split: option.splits)
    then have "b_width (vr_bounds (vectorizeCell trace img)) \<noteq> 0"
      using w by simp
    then have "vr_bounds (vectorizeCell trace img) \<noteq> \<lparr>b_x = 0, b_y = 0, b_width = 0, b_height = 0\<rparr>"
      by auto
    then show ?thesis
      using False early_return_iff [OF cb] by simp
  qed
qed

theorem vectorizeCell_empty_iff_witness:
  "vectorizeCell (\<lambda>i b. Some ''M 0 0 L 0 2 Z'')
      \<lparr>width = 3, height = 3, data =
        [0,0,0,255, 255,255,255,255, 0,0,0,255,
         0,0,0,255, 255,255,255,255, 0,0,0,255,
         0,0,0,255, 255,255,255,255, 0,0,0,255]\<rparr>
     = \<lparr>vr_svgPath = [], vr_bounds = \<lparr>b_x = 0, b_y = 0, b_width = 0, b_height = 0\<rparr>,
        vr_isEmpty = True\<rparr>
   \<and> (1, 0) \<in> inkPixels \<lparr>width = 3, height = 3, data =
        [0,0,0,255, 255,255,255,255, 0,0,0,255,
         0,0,0,255, 255,255,255,255, 0,0,0,255,
         0,0,0,255, 255,255,255,255, 0,0,0,255]\<rparr>
   \<and> (\<exists>c. \<forall>p \<in> inkPixels \<lparr>width = 3, height = 3, data =
        [0,0,0,255, 255,255,255,255, 0,0,0,255,
         0,0,0,255, 255,255,255,255, 0,0,0,255,
         0,0,0,255, 255,255,255,255, 0,0,0,255]\<rparr>. fst p = c)"
proof -
  let ?img = "\<lparr>width = 3, height = 3, data =
        [0,0,0,255, 255,255,255,255, 0,0,0,255,
         0,0,0,255, 255,255,255,255, 0,0,0,255,
         0,0,0,255, 255,255,255,255, 0,0,0,255]\<rparr>"
  have v: "vectorizeCell (\<lambda>i b. Some ''M 0 0 L 0 2 Z'') ?img
     = \<lparr>vr_svgPath = [], vr_bounds = \<lparr>b_x = 0, b_y = 0, b_width = 0, b_height = 0\<rparr>,
        vr_isEmpty = True\<rparr>"
    by (simp add: vectorizeCell_def contentBounds_def pixelOrder_def scanStep_def inkAt_def
        upt_rec Let_def)
  have i: "(1, 0) \<in> inkPixels ?img"
    by (simp add: inkPixels_def inkAt_def)
  have ne: "inkPixels ?img \<noteq> {}" using i by blast
  have norow: "\<not> (\<exists>c. \<forall>p \<in> inkPixels ?img. snd p = c)"
  proof
    assume "\<exists>c. \<forall>p \<in> inkPixels ?img. snd p = c"
    then obtain c where c: "\<forall>p \<in> inkPixels ?img. snd p = c" by blast
    have "(1, 1) \<in> inkPixels ?img" by (simp add: inkPixels_def inkAt_def)
    then have "snd (1::nat, 1::nat) = c" using c by blast
    moreover have "snd (1::nat, 0::nat) = c" using c i by blast
    ultimately show False by simp
  qed
  have "vr_isEmpty (vectorizeCell (\<lambda>i b. Some ''M 0 0 L 0 2 Z'') ?img)
      \<and> vr_svgPath (vectorizeCell (\<lambda>i b. Some ''M 0 0 L 0 2 Z'') ?img) = []
      \<and> vr_bounds (vectorizeCell (\<lambda>i b. Some ''M 0 0 L 0 2 Z'') ?img)
          = \<lparr>b_x = 0, b_y = 0, b_width = 0, b_height = 0\<rparr>"
    by (simp only: v VectorizationResult.simps simp_thms)
  then have "inkPixels ?img = {} \<or> (\<exists>c. \<forall>p \<in> inkPixels ?img. fst p = c)
          \<or> (\<exists>c. \<forall>p \<in> inkPixels ?img. snd p = c)"
    by (rule iffD1 [OF vectorizeCell_empty_iff])
  then have "\<exists>c. \<forall>p \<in> inkPixels ?img. fst p = c"
    using ne norow by blast
  then show ?thesis
    using v i by blast
qed

subsection \<open>The connected-component filter\<close>

text \<open>
  C4 (amended). The filter works on the polarity-normalised mask: the cell mask itself
  when at most half of its pixels are non-zero, and its inversion (every pixel \<open>v\<close> replaced
  by \<open>255 - v\<close>) otherwise. A foreground component of the normalised mask is kept exactly
  when its area is at least \<open>minArea\<close> and, for a positive \<open>rejectTopFraction\<close> (0.15 per
  cell), the y coordinate of its centroid is not less than \<open>rejectTopFraction\<close> times the
  cell height: every pixel of a kept component is 255 in the output, every pixel of a
  dropped component and every background pixel is 0, and the output has the size of the
  input.
\<close>

theorem removeSmallComponents_filter:
  assumes i: "i < rows m * cols m"
    and len: "length (labels (cc (ensureInkIsWhite m))) = rows m * cols m"
  shows "pixels (removeSmallComponents cc m minArea rejectTopFraction) ! i
     = (if 1 \<le> labels (cc (ensureInkIsWhite m)) ! i
          \<and> labels (cc (ensureInkIsWhite m)) ! i < numLabels (cc (ensureInkIsWhite m))
          \<and> minArea \<le> real_of_int
                (statArea (cc (ensureInkIsWhite m)) ! (labels (cc (ensureInkIsWhite m)) ! i))
          \<and> (0 < rejectTopFraction \<longrightarrow> real (rows m) * rejectTopFraction
                \<le> centroidY (cc (ensureInkIsWhite m)) ! (labels (cc (ensureInkIsWhite m)) ! i))
        then 255 else 0)
   \<and> pixels (ensureInkIsWhite m)
       = (if real (rows m * cols m) * (1 / 2) < real (countNonZero m)
          then map (\<lambda>v. 255 - v) (pixels m) else pixels m)
   \<and> rows (removeSmallComponents cc m minArea rejectTopFraction) = rows m
   \<and> cols (removeSmallComponents cc m minArea rejectTopFraction) = cols m
   \<and> length (pixels (removeSmallComponents cc m minArea rejectTopFraction)) = rows m * cols m"
proof -
  have a: "pixels (removeSmallComponents cc m minArea rejectTopFraction) ! i
     = (if 1 \<le> labels (cc (ensureInkIsWhite m)) ! i
          \<and> labels (cc (ensureInkIsWhite m)) ! i < numLabels (cc (ensureInkIsWhite m))
          \<and> minArea \<le> real_of_int
                (statArea (cc (ensureInkIsWhite m)) ! (labels (cc (ensureInkIsWhite m)) ! i))
          \<and> (0 < rejectTopFraction \<longrightarrow> real (rows m) * rejectTopFraction
                \<le> centroidY (cc (ensureInkIsWhite m)) ! (labels (cc (ensureInkIsWhite m)) ! i))
        then 255 else 0)"
    using i len by (auto simp: removeSmallComponents_def Let_def labelsToKeep_def not_less)
  have b: "pixels (ensureInkIsWhite m)
       = (if real (rows m * cols m) * (1 / 2) < real (countNonZero m)
          then map (\<lambda>v. 255 - v) (pixels m) else pixels m)"
    by (simp add: ensureInkIsWhite_def Let_def)
  have c: "rows (removeSmallComponents cc m minArea rejectTopFraction) = rows m"
    "cols (removeSmallComponents cc m minArea rejectTopFraction) = cols m"
    "length (pixels (removeSmallComponents cc m minArea rejectTopFraction)) = rows m * cols m"
    by (simp_all add: removeSmallComponents_def Let_def)
  show ?thesis using a b c by (simp only: simp_thms)
qed

theorem removeSmallComponents_filter_witness:
  "pixels (removeSmallComponents
      (\<lambda>m. \<lparr>numLabels = 3, labels = [1, 0, 0, 2], statArea = [2, 1, 1], centroidY = [3 / 2, 0, 3]\<rparr>)
      \<lparr>rows = 4, cols = 1, pixels = [255, 0, 0, 255]\<rparr> 1 (15 / 100)) ! 3 = 255
   \<and> pixels (removeSmallComponents
      (\<lambda>m. \<lparr>numLabels = 3, labels = [1, 0, 0, 2], statArea = [2, 1, 1], centroidY = [3 / 2, 0, 3]\<rparr>)
      \<lparr>rows = 4, cols = 1, pixels = [255, 0, 0, 255]\<rparr> 1 (15 / 100)) ! 0 = 0
   \<and> pixels (ensureInkIsWhite \<lparr>rows = 4, cols = 1, pixels = [255, 255, 255, 0]\<rparr>)
       = [0, 0, 0, 255]
   \<and> pixels (removeSmallComponents
      (\<lambda>m. \<lparr>numLabels = 2, labels = [0, 0, 0, 1], statArea = [3, 1], centroidY = [1, 3]\<rparr>)
      \<lparr>rows = 4, cols = 1, pixels = [255, 255, 255, 0]\<rparr> 1 (15 / 100)) ! 3 = 255"
proof -
  let ?cc = "\<lambda>m::Mat. \<lparr>numLabels = 3, labels = [1, 0, 0, 2], statArea = [2, 1, 1],
      centroidY = [3 / 2, 0, 3]\<rparr>"
  let ?m = "\<lparr>rows = 4, cols = 1, pixels = [255, 0, 0, 255]\<rparr>"
  let ?cc' = "\<lambda>m::Mat. \<lparr>numLabels = 2, labels = [0, 0, 0, 1], statArea = [3, 1],
      centroidY = [1, 3]\<rparr>"
  let ?m' = "\<lparr>rows = 4, cols = 1, pixels = [255, 255, 255, 0]\<rparr>"
  have l: "length (labels (?cc (ensureInkIsWhite ?m))) = rows ?m * cols ?m" by simp
  have l': "length (labels (?cc' (ensureInkIsWhite ?m'))) = rows ?m' * cols ?m'" by simp
  have i3: "3 < rows ?m * cols ?m" and i0: "0 < rows ?m * cols ?m" by simp_all
  have i3': "3 < rows ?m' * cols ?m'" by simp
  have e: "ensureInkIsWhite ?m = ?m"
    by (simp add: ensureInkIsWhite_def countNonZero_def)
  have e': "ensureInkIsWhite ?m' = \<lparr>rows = 4, cols = 1, pixels = [0, 0, 0, 255]\<rparr>"
    by (simp add: ensureInkIsWhite_def countNonZero_def)
  note a = removeSmallComponents_filter [of 3 ?m ?cc 1 "15 / 100", OF i3 l, THEN conjunct1]
  note b = removeSmallComponents_filter [of 0 ?m ?cc 1 "15 / 100", OF i0 l, THEN conjunct1]
  note c = removeSmallComponents_filter [of 3 ?m' ?cc' 1 "15 / 100", OF i3' l', THEN conjunct1]
  have p1: "pixels (removeSmallComponents ?cc ?m 1 (15 / 100)) ! 3 = 255"
    using a by (simp add: numeral_3_eq_3)
  have p2: "pixels (removeSmallComponents ?cc ?m 1 (15 / 100)) ! 0 = 0"
    using b by simp
  have p3: "pixels (ensureInkIsWhite ?m') = [0, 0, 0, 255]"
    by (simp add: ensureInkIsWhite_def countNonZero_def)
  have p4: "pixels (removeSmallComponents ?cc' ?m' 1 (15 / 100)) ! 3 = 255"
    using c by (simp add: numeral_3_eq_3)
  show ?thesis
    using p1 p2 p3 p4 by (intro conjI)
qed

text \<open>
  A cell of three rows and one column whose two lower pixels are ink: the ink is one
  component of area 2 with centroid y = 1.5, below the top 15 percent, and \<open>minArea = 1\<close>.
  More than half of the pixels are non-zero, so the mask is inverted before labelling, the
  only component found is the former background pixel, and the output is all zero.
\<close>

theorem ink_dominant_mask_inverted:
  "pixels (removeSmallComponents
      (\<lambda>m. if pixels m = [255, 0, 0]
           then \<lparr>numLabels = 2, labels = [1, 0, 0], statArea = [2, 1], centroidY = [3 / 2, 0]\<rparr>
           else \<lparr>numLabels = 2, labels = [0, 1, 1], statArea = [1, 2], centroidY = [0, 3 / 2]\<rparr>)
      \<lparr>rows = 3, cols = 1, pixels = [0, 255, 255]\<rparr> 1 (15 / 100)) = [0, 0, 0]
   \<and> ccConsistent \<lparr>rows = 3, cols = 1, pixels = [0, 255, 255]\<rparr>
        \<lparr>numLabels = 2, labels = [0, 1, 1], statArea = [1, 2], centroidY = [0, 3 / 2]\<rparr>
   \<and> ensureInkIsWhite \<lparr>rows = 3, cols = 1, pixels = [0, 255, 255]\<rparr>
        = \<lparr>rows = 3, cols = 1, pixels = [255, 0, 0]\<rparr>
   \<and> ccConsistent \<lparr>rows = 3, cols = 1, pixels = [255, 0, 0]\<rparr>
        \<lparr>numLabels = 2, labels = [1, 0, 0], statArea = [2, 1], centroidY = [3 / 2, 0]\<rparr>
   \<and> (1::real) \<le> real_of_int
        (statArea \<lparr>numLabels = 2, labels = [0, 1, 1], statArea = [1, 2], centroidY = [0, 3 / 2]\<rparr> ! 1)
   \<and> real 3 * (15 / 100)
        \<le> centroidY \<lparr>numLabels = 2, labels = [0, 1, 1], statArea = [1, 2], centroidY = [0, 3 / 2]\<rparr> ! 1"
  by (simp add: removeSmallComponents_def Let_def labelsToKeep_def ensureInkIsWhite_def
      countNonZero_def ccConsistent_def labelPixels_def upt_conv_Cons)

subsection \<open>Douglas-Peucker simplification\<close>

lemma scanMax_noupdate:
  "\<forall>y \<in> set ys. g y \<le> fst st \<Longrightarrow> scanMax g st k ys = st"
  by (induction ys arbitrary: k) auto

lemma scanMax_max:
  "fst st < g m \<Longrightarrow> \<forall>x \<in> set xs. g x < g m \<Longrightarrow> \<forall>y \<in> set ys. g y \<le> g m \<Longrightarrow>
    scanMax g st k (xs @ m # ys) = (g m, k + length xs)"
proof (induction xs arbitrary: st k)
  case Nil
  then show ?case by (simp add: scanMax_noupdate)
next
  case (Cons x xs)
  have "fst (if g x > fst st then (g x, k) else st) < g m"
    using Cons.prems by auto
  then show ?case
    using Cons.IH [of "if g x > fst st then (g x, k) else st" "Suc k"] Cons.prems by simp
qed

lemma scanMax_split:
  "scanMax g st k xs = (md, mi) \<Longrightarrow>
    (st = (md, mi) \<and> (\<forall>x \<in> set xs. g x \<le> md))
    \<or> (\<exists>A m B. xs = A @ m # B \<and> mi = k + length A \<and> g m = md \<and> fst st < md
          \<and> (\<forall>x \<in> set A. g x < md) \<and> (\<forall>y \<in> set B. g y \<le> md))"
proof (induction xs arbitrary: st k)
  case Nil
  then show ?case by simp
next
  case (Cons x xs)
  let ?st = "if g x > fst st then (g x, k) else st"
  from Cons.prems have run: "scanMax g ?st (Suc k) xs = (md, mi)" by simp
  from Cons.IH [OF run] show ?case
  proof
    assume a: "?st = (md, mi) \<and> (\<forall>x \<in> set xs. g x \<le> md)"
    show ?thesis
    proof (cases "g x > fst st")
      case True
      then have "x # xs = [] @ x # xs \<and> mi = k + length ([] :: Pt list) \<and> g x = md \<and> fst st < md
          \<and> (\<forall>x \<in> set []. g x < md) \<and> (\<forall>y \<in> set xs. g y \<le> md)"
        using a by auto
      then show ?thesis by blast
    next
      case False
      then show ?thesis using a by auto
    qed
  next
    assume "\<exists>A m B. xs = A @ m # B \<and> mi = Suc k + length A \<and> g m = md \<and> fst ?st < md
          \<and> (\<forall>x \<in> set A. g x < md) \<and> (\<forall>y \<in> set B. g y \<le> md)"
    then obtain A m B where b: "xs = A @ m # B" "mi = Suc k + length A" "g m = md" "fst ?st < md"
          "\<forall>x \<in> set A. g x < md" "\<forall>y \<in> set B. g y \<le> md"
      by blast
    have "g x < md \<and> fst st < md"
      using b(4) by (auto split: if_splits)
    then have "x # xs = (x # A) @ m # B \<and> mi = k + length (x # A) \<and> g m = md \<and> fst st < md
          \<and> (\<forall>x \<in> set (x # A). g x < md) \<and> (\<forall>y \<in> set B. g y \<le> md)"
      using b by auto
    then show ?thesis by blast
  qed
qed


lemma list_ends: "2 \<le> length ps \<Longrightarrow> ps = hd ps # interior ps @ [last ps]"
proof -
  assume "2 \<le> length ps"
  then obtain a rest where ps: "ps = a # rest" and r: "rest \<noteq> []"
    by (cases ps) (auto simp: Suc_le_eq)
  then show ?thesis
    by (simp add: interior_def)
qed

lemma interior_ends [simp]: "interior (a # xs @ [b]) = xs"
  by (simp add: interior_def butlast_append)

lemma chordMax_decomp:
  assumes len: "2 \<le> length ps" and eps: "0 \<le> eps" and gt: "eps < fst (chordMax d ps)"
  shows "\<exists>A m B. ps = hd ps # A @ m # B @ [last ps]
      \<and> snd (chordMax d ps) = 1 + length A
      \<and> d m (hd ps) (last ps) = fst (chordMax d ps)
      \<and> (\<forall>x \<in> set A. d x (hd ps) (last ps) < d m (hd ps) (last ps))
      \<and> (\<forall>y \<in> set B. d y (hd ps) (last ps) \<le> d m (hd ps) (last ps))"
proof -
  let ?g = "\<lambda>x. d x (hd ps) (last ps)"
  obtain md mi where run: "scanMax ?g (0, 0) 1 (interior ps) = (md, mi)"
    by (cases "scanMax ?g (0, 0) 1 (interior ps)")
  then have cm: "chordMax d ps = (md, mi)"
    by (simp add: chordMax_def)
  from scanMax_split [OF run] show ?thesis
  proof
    assume "(0, 0) = (md, mi) \<and> (\<forall>x \<in> set (interior ps). ?g x \<le> md)"
    then have "md = 0" by simp
    then show ?thesis using gt eps cm by simp
  next
    assume "\<exists>A m B. interior ps = A @ m # B \<and> mi = 1 + length A \<and> ?g m = md
        \<and> fst (0::real, 0::nat) < md \<and> (\<forall>x \<in> set A. ?g x < md) \<and> (\<forall>y \<in> set B. ?g y \<le> md)"
    then obtain A m B where b: "interior ps = A @ m # B" "mi = 1 + length A" "?g m = md"
        "\<forall>x \<in> set A. ?g x < md" "\<forall>y \<in> set B. ?g y \<le> md"
      by blast
    have "ps = hd ps # A @ m # B @ [last ps]"
      using list_ends [OF len] b(1) by simp
    then show ?thesis
      using b cm by auto
  qed
qed

lemma dpGeneric_fixpoint_shape:
  assumes eps: "0 \<le> eps"
  shows "\<exists>r. dpGeneric d eps ps = Some r \<and> dpGeneric d eps r = Some r
      \<and> (2 \<le> length ps \<longrightarrow> (\<exists>J. r = hd ps # J @ [last ps] \<and> set J \<subseteq> set (interior ps)))"
proof (induction "length ps" arbitrary: ps rule: less_induct)
  case less
  show ?case
  proof (cases "length ps \<le> 2")
    case True
    have "dpGeneric d eps ps = Some ps"
      using True by (subst dpGeneric.simps) simp
    moreover have "2 \<le> length ps \<longrightarrow> (\<exists>J. ps = hd ps # J @ [last ps] \<and> set J \<subseteq> set (interior ps))"
      using list_ends [of ps] by auto
    ultimately show ?thesis by blast
  next
    case long: False
    then have len2: "2 \<le> length ps" by simp
    show ?thesis
    proof (cases "eps < fst (chordMax d ps)")
      case False
      have r: "dpGeneric d eps ps = Some [hd ps, last ps]"
        using long False by (subst dpGeneric.simps) simp
      have "dpGeneric d eps [hd ps, last ps] = Some [hd ps, last ps]"
        by (subst dpGeneric.simps) simp
      moreover have "[hd ps, last ps] = hd ps # [] @ [last ps] \<and> set [] \<subseteq> set (interior ps)"
        by simp
      ultimately show ?thesis using r by blast
    next
      case True
      let ?h = "hd ps" and ?l = "last ps"
      let ?g = "\<lambda>x. d x ?h ?l"
      obtain A m B where dec: "ps = ?h # A @ m # B @ [?l]"
          and mi: "snd (chordMax d ps) = 1 + length A"
          and gm: "?g m = fst (chordMax d ps)"
          and gA: "\<forall>x \<in> set A. ?g x < ?g m"
          and gB: "\<forall>y \<in> set B. ?g y \<le> ?g m"
        using chordMax_decomp [OF len2 eps True] by blast
      let ?psL = "?h # A @ [m]" and ?psR = "m # B @ [?l]"
      have lenps: "length ps = length A + length B + 3"
        using arg_cong [OF dec, of length] by simp
      define k where "k = snd (chordMax d ps)"
      have k0: "k \<noteq> 0" using mi by (simp add: k_def)
      have tk: "take (Suc k) ps = ?psL"
        by (subst dec) (simp add: mi k_def)
      have dr: "drop k ps = ?psR"
        by (subst dec) (simp add: mi k_def)
      have "length ?psL < length ps" using lenps by simp
      from less [OF this] obtain rL J1 where
          L1: "dpGeneric d eps ?psL = Some rL" and L2: "dpGeneric d eps rL = Some rL"
          and L3: "rL = ?h # J1 @ [m]" and L4: "set J1 \<subseteq> set A"
        by auto
      have "length ?psR < length ps" using lenps by simp
      from less [OF this] obtain rR J2 where
          R1: "dpGeneric d eps ?psR = Some rR" and R2: "dpGeneric d eps rR = Some rR"
          and R3: "rR = m # J2 @ [?l]" and R4: "set J2 \<subseteq> set B"
        by auto
      define r where "r = ?h # J1 @ m # J2 @ [?l]"
      have bl: "butlast rL @ rR = r"
        by (simp add: r_def L3 R3 butlast_append)
      have one: "dpGeneric d eps ps = Some r"
        using long True k0
        by (subst dpGeneric.simps) (simp add: k_def [symmetric] tk dr L1 R1 bl)
      have hr: "hd r = ?h" and lr: "last r = ?l"
        by (simp_all add: r_def)
      have cmr: "chordMax d r = (?g m, 1 + length J1)"
      proof -
        have "fst (0::real, 0::nat) < ?g m" using True eps gm by simp
        moreover have "\<forall>x \<in> set J1. ?g x < ?g m" using gA L4 by blast
        moreover have "\<forall>y \<in> set J2. ?g y \<le> ?g m" using gB R4 by blast
        ultimately have "scanMax ?g (0, 0) 1 (J1 @ m # J2) = (?g m, 1 + length J1)"
          by (rule scanMax_max)
        moreover have "interior r = J1 @ m # J2"
          using interior_ends [of ?h "J1 @ m # J2" ?l] by (simp add: r_def)
        ultimately show ?thesis
          by (simp add: chordMax_def hr lr)
      qed
      define k' where "k' = snd (chordMax d r)"
      have k'0: "k' \<noteq> 0" by (simp add: k'_def cmr)
      have fr: "eps < fst (chordMax d r)" using True gm by (simp add: cmr)
      have kv: "k' = 1 + length J1" by (simp add: k'_def cmr)
      have tkr: "take (Suc k') r = rL"
        by (simp add: kv L3 r_def)
      have drr: "drop k' r = rR"
        by (simp add: kv R3 r_def)
      have lenr: "\<not> length r \<le> 2" by (simp add: r_def)
      have two: "dpGeneric d eps r = Some r"
        using lenr fr k'0
        by (subst dpGeneric.simps) (simp add: k'_def [symmetric] tkr drr L2 R2 bl)
      have "r = ?h # (J1 @ m # J2) @ [?l] \<and> set (J1 @ m # J2) \<subseteq> set (interior ps)"
      proof -
        have "interior ps = A @ m # B"
          using interior_ends [of ?h "A @ m # B" ?l] dec by simp
        then show ?thesis using L4 R4 by (auto simp: r_def)
      qed
      then show ?thesis using one two by blast
    qed
  qed
qed


lemma interior_take_drop: "interior ps = take (length ps - 2) (drop 1 ps)"
  by (simp add: interior_def butlast_conv_take drop_Suc numeral_2_eq_2)

lemma fold_scanMax:
  "a \<le> b \<Longrightarrow> b \<le> length pts \<Longrightarrow>
    foldl (findMaxStep (\<lambda>i. g (pts ! i))) st [a..<b] = scanMax g st a (take (b - a) (drop a pts))"
proof (induction "b - a" arbitrary: a st)
  case 0
  then show ?case by simp
next
  case (Suc n)
  then have lt: "a < b" and al: "a < length pts" by simp_all
  have u: "[a..<b] = a # [Suc a..<b]"
    using lt by (simp add: upt_conv_Cons)
  have t: "take (b - a) (drop a pts) = pts ! a # take (b - Suc a) (drop (Suc a) pts)"
    using lt al by (metis Cons_nth_drop_Suc Suc_diff_Suc take_Suc_Cons)
  have n: "n = b - Suc a" using Suc.hyps(2) by simp
  have step: "findMaxStep (\<lambda>i. g (pts ! i)) st a
      = (if g (pts ! a) > fst st then (g (pts ! a), a) else st)"
    by (cases st) (simp add: findMaxStep_def)
  show ?case
    using Suc.hyps(1) [OF n, of "findMaxStep (\<lambda>i. g (pts ! i)) st a"] lt Suc.prems(2)
    by (simp add: u t step)
qed

lemma findMax_chordMax:
  assumes "2 \<le> length ps"
  shows "findMax ps = chordMax perpendicularDistance ps"
proof -
  have ne: "ps \<noteq> []" using assms by auto
  have h: "ps ! 0 = hd ps" and l: "ps ! (length ps - Suc 0) = last ps"
    using ne by (simp_all add: hd_conv_nth last_conv_nth)
  have "foldl (findMaxStep (\<lambda>i. perpendicularDistance (ps ! i) (hd ps) (last ps))) (0, 0)
          [1..<length ps - 1]
      = scanMax (\<lambda>x. perpendicularDistance x (hd ps) (last ps)) (0, 0) 1
          (take (length ps - 1 - 1) (drop 1 ps))"
    using assms by (intro fold_scanMax) simp_all
  then show ?thesis
    by (simp add: findMax_def chordMax_def h l interior_take_drop numeral_2_eq_2)
qed

lemma simplifyPath_dpGeneric:
  "simplifyPath eps ps = dpGeneric perpendicularDistance eps ps"
proof (induction "length ps" arbitrary: ps rule: less_induct)
  case less
  show ?case
  proof (cases "length ps \<le> 2")
    case True
    then show ?thesis
      by (subst simplifyPath.simps, subst dpGeneric.simps) simp
  next
    case False
    then have fm: "findMax ps = chordMax perpendicularDistance ps"
      by (intro findMax_chordMax) simp
    have ne: "ps \<noteq> []" using False by auto
    have h: "ps ! 0 = hd ps" and l: "ps ! (length ps - Suc 0) = last ps"
      using ne by (simp_all add: hd_conv_nth last_conv_nth)
    define k where "k = snd (chordMax perpendicularDistance ps)"
    show ?thesis
    proof (cases "eps < fst (chordMax perpendicularDistance ps) \<and> k \<noteq> 0")
      case True
      then have kr: "1 \<le> k \<and> k < length ps - 1"
        using chordMax_index [of perpendicularDistance ps] by (simp add: k_def)
      have a: "simplifyPath eps (take (Suc k) ps) = dpGeneric perpendicularDistance eps (take (Suc k) ps)"
        using kr by (intro less) (auto simp: min_def)
      have b: "simplifyPath eps (drop k ps) = dpGeneric perpendicularDistance eps (drop k ps)"
        using kr by (intro less) auto
      show ?thesis
        using False True
        by (subst simplifyPath.simps, subst dpGeneric.simps)
          (simp add: fm k_def [symmetric] a b cong: option.case_cong)
    next
      case False2: False
      show ?thesis
        using False False2
        by (subst simplifyPath.simps, subst dpGeneric.simps)
          (auto simp: fm k_def [symmetric] h l)
    qed
  qed
qed


lemma foldNaN_scanMax:
  "0 \<le> fst st \<Longrightarrow> a \<le> b \<Longrightarrow> b \<le> length pts \<Longrightarrow>
    foldl (findMaxDistanceStep pts s e) st [a..<b]
      = scanMax (\<lambda>x. strokeDistance0 x (pts ! s) (pts ! e)) st a (take (b - a) (drop a pts))"
proof (induction "b - a" arbitrary: a st)
  case 0
  then show ?case by simp
next
  case (Suc n)
  let ?g = "\<lambda>x. strokeDistance0 x (pts ! s) (pts ! e)"
  from Suc have lt: "a < b" and al: "a < length pts" by simp_all
  have u: "[a..<b] = a # [Suc a..<b]"
    using lt by (simp add: upt_conv_Cons)
  have t: "take (b - a) (drop a pts) = pts ! a # take (b - Suc a) (drop (Suc a) pts)"
    using lt al by (metis Cons_nth_drop_Suc Suc_diff_Suc take_Suc_Cons)
  have n: "n = b - Suc a" using Suc.hyps(2) by simp
  have step: "findMaxDistanceStep pts s e st a = (if ?g (pts ! a) > fst st then (?g (pts ! a), a) else st)"
    using Suc.prems(1)
    by (cases st) (auto simp: findMaxDistanceStep_def strokeDistance0_def split: option.splits)
  have nn: "0 \<le> fst (findMaxDistanceStep pts s e st a)"
    using Suc.prems(1) by (simp add: step)
  show ?case
    using Suc.hyps(1) [OF n nn] lt Suc.prems(3)
    by (simp add: u t step)
qed

lemma scanMax_shift:
  "1 \<le> k \<Longrightarrow>
    scanMax g (md, if mi = 0 then 0 else mi + s) (k + s) xs
      = (fst (scanMax g (md, mi) k xs),
         if snd (scanMax g (md, mi) k xs) = 0 then 0 else snd (scanMax g (md, mi) k xs) + s)"
proof (induction xs arbitrary: md mi k)
  case Nil
  then show ?case by simp
next
  case (Cons x xs)
  show ?case
  proof (cases "g x > md")
    case True
    then show ?thesis
      using Cons.IH [of "Suc k" "g x" k] Cons.prems by simp
  next
    case False
    then show ?thesis
      using Cons.IH [of "Suc k" md mi] Cons.prems by simp
  qed
qed

lemma sub_ends:
  assumes "s < e" and "e < length pts"
  shows "length (take (e - s + 1) (drop s pts)) = e - s + 1"
    and "hd (take (e - s + 1) (drop s pts)) = pts ! s"
    and "last (take (e - s + 1) (drop s pts)) = pts ! e"
proof -
  let ?sub = "take (e - s + 1) (drop s pts)"
  show len: "length ?sub = e - s + 1" using assms by simp
  then have ne: "?sub \<noteq> []" by auto
  have "hd ?sub = ?sub ! 0" using ne by (rule hd_conv_nth)
  also have "\<dots> = pts ! s" using assms by simp
  finally show "hd ?sub = pts ! s" .
  have "last ?sub = ?sub ! (length ?sub - 1)" using ne by (rule last_conv_nth)
  also have "\<dots> = ?sub ! (e - s)" by (simp only: len) simp
  also have "\<dots> = pts ! (s + (e - s))" using assms by simp
  also have "\<dots> = pts ! e" using assms by simp
  finally show "last ?sub = pts ! e" .
qed

lemma interior_sub:
  assumes "s < e" and "e < length pts"
  shows "interior (take (e - s + 1) (drop s pts)) = take (e - (s + 1)) (drop (s + 1) pts)"
proof -
  define ys where "ys = drop s pts"
  define n where "n = e - s"
  have n: "1 \<le> n" "n + 1 \<le> length ys" using assms by (simp_all add: n_def ys_def)
  have "interior (take (n + 1) ys) = take (n + 1 - 2) (drop 1 (take (n + 1) ys))"
    using n by (simp add: interior_take_drop)
  also have "drop 1 (take (n + 1) ys) = take n (drop 1 ys)"
    by (simp add: drop_take)
  also have "take (n + 1 - 2) (take n (drop 1 ys)) = take (n - 1) (drop 1 ys)"
    by (simp add: min_def)
  also have "drop 1 ys = drop (s + 1) pts"
    by (simp add: ys_def)
  finally show ?thesis
    by (simp add: n_def ys_def)
qed

lemma findMaxDistance_chordMax:
  assumes se: "s < e" and el: "e < length pts"
    and sub: "sub = take (e - s + 1) (drop s pts)"
  shows "findMaxDistance pts s e
      = (fst (chordMax strokeDistance0 sub),
         if snd (chordMax strokeDistance0 sub) = 0 then 0
         else snd (chordMax strokeDistance0 sub) + s)"
proof -
  let ?g = "\<lambda>x. strokeDistance0 x (pts ! s) (pts ! e)"
  have h: "hd sub = pts ! s" and l: "last sub = pts ! e"
    unfolding sub by (rule sub_ends [OF se el])+
  have i: "take (e - (s + 1)) (drop (s + 1) pts) = interior sub"
    unfolding sub by (rule interior_sub [OF se el, symmetric])
  have "findMaxDistance pts s e = scanMax ?g (0, 0) (s + 1) (take (e - (s + 1)) (drop (s + 1) pts))"
    unfolding findMaxDistance_def using se el by (intro foldNaN_scanMax) simp_all
  also have "\<dots> = scanMax ?g (0, 0) (s + 1) (interior sub)"
    by (simp only: i)
  also have "\<dots> = scanMax ?g (0, if (0::nat) = 0 then 0 else 0 + s) (1 + s) (interior sub)"
    by (simp add: add.commute)
  also have "\<dots> = (fst (scanMax ?g (0, 0) 1 (interior sub)),
         if snd (scanMax ?g (0, 0) 1 (interior sub)) = 0 then 0
         else snd (scanMax ?g (0, 0) 1 (interior sub)) + s)"
    by (rule scanMax_shift) simp
  finally show ?thesis
    by (simp add: chordMax_def h l)
qed

lemma simplify_dpGeneric:
  "s < e \<Longrightarrow> e < length pts \<Longrightarrow> 0 \<le> eps \<Longrightarrow>
    simplify eps pts s e = dpGeneric strokeDistance0 eps (take (e - s + 1) (drop s pts))"
proof (induction "e - s" arbitrary: s e rule: less_induct)
  case less
  define sub where "sub = take (e - s + 1) (drop s pts)"
  have len: "length sub = e - s + 1" and h: "hd sub = pts ! s" and l: "last sub = pts ! e"
    unfolding sub_def by (rule sub_ends [OF less.prems(1,2)])+
  define k where "k = snd (chordMax strokeDistance0 sub)"
  define md where "md = fst (chordMax strokeDistance0 sub)"
  have fmd: "findMaxDistance pts s e = (md, if k = 0 then 0 else k + s)"
    using findMaxDistance_chordMax [OF less.prems(1,2) sub_def] by (simp add: k_def md_def)
  have goal: "simplify eps pts s e = dpGeneric strokeDistance0 eps sub"
  proof (cases "e - s = 1")
    case True
    have i0: "interior sub = []"
      unfolding sub_def using interior_sub [OF less.prems(1,2)] True by simp
    have "2 \<le> length sub"
      using less.prems(1) by (simp add: len)
    then have "sub = hd sub # interior sub @ [last sub]"
      by (rule list_ends)
    then have two: "sub = [pts ! s, pts ! e]"
      by (simp only: i0 h l append_Nil)
    have "md = 0" by (simp add: md_def chordMax_def i0)
    then have "simplify eps pts s e = Some [pts ! s, pts ! e]"
      using less.prems(3) by (subst simplify.simps) (simp add: fmd)
    moreover have "dpGeneric strokeDistance0 eps sub = Some sub"
      using len True by (subst dpGeneric.simps) simp
    ultimately show ?thesis using two by simp
  next
    case False
    then have long: "\<not> length sub \<le> 2" using less.prems(1) by (simp add: len)
    show ?thesis
    proof (cases "eps < md \<and> k \<noteq> 0")
      case True
      then have kr: "1 \<le> k \<and> k < e - s"
        using chordMax_index [of strokeDistance0 sub] by (simp add: k_def len)
      have a: "simplify eps pts s (k + s) = dpGeneric strokeDistance0 eps (take (Suc k) sub)"
      proof -
        have "simplify eps pts s (k + s)
            = dpGeneric strokeDistance0 eps (take (k + s - s + 1) (drop s pts))"
          using kr less.prems by (intro less.hyps) auto
        moreover have "take (Suc k) sub = take (k + s - s + 1) (drop s pts)"
          unfolding sub_def using kr by (simp add: min_def)
        ultimately show ?thesis by simp
      qed
      have b: "simplify eps pts (k + s) e = dpGeneric strokeDistance0 eps (drop k sub)"
      proof -
        have "simplify eps pts (k + s) e
            = dpGeneric strokeDistance0 eps (take (e - (k + s) + 1) (drop (k + s) pts))"
          using kr less.prems by (intro less.hyps) auto
        moreover have "drop k sub = take (e - (k + s) + 1) (drop (k + s) pts)"
        proof -
          have "Suc (e - s) - k = Suc (e - (k + s))" using kr by arith
          then show ?thesis
            unfolding sub_def by (simp add: drop_take add.commute)
        qed
        ultimately show ?thesis by simp
      qed
      show ?thesis
        using True long
        by (subst simplify.simps, subst dpGeneric.simps)
          (simp add: fmd k_def [symmetric] md_def [symmetric] a b cong: option.case_cong)
    next
      case False2: False
      show ?thesis
        using False2 long
        by (subst simplify.simps, subst dpGeneric.simps)
          (auto simp: fmd k_def [symmetric] md_def [symmetric] h l)
    qed
  qed
  then show ?case by (simp only: sub_def)
qed

lemma simplifyStroke_dpGeneric:
  "0 \<le> eps \<Longrightarrow> simplifyStroke eps ps = dpGeneric strokeDistance0 eps ps"
proof (cases "length ps \<le> 2")
  case True
  then show ?thesis
    by (subst dpGeneric.simps) (simp add: simplifyStroke_def)
next
  case False
  assume "0 \<le> eps"
  then have "simplify eps ps 0 (length ps - 1)
      = dpGeneric strokeDistance0 eps (take (length ps - 1 - 0 + 1) (drop 0 ps))"
    using False by (intro simplify_dpGeneric) simp_all
  then show ?thesis
    using False by (simp add: simplifyStroke_def)
qed


text \<open>
  C7 (amended). For every list of points and every \<open>\<epsilon> \<ge> 0\<close>, Douglas-Peucker
  simplification returns, and it is idempotent: simplifying its result again with the same
  \<open>\<epsilon>\<close> gives the same list. A list of at most two points is returned unchanged. With
  \<open>\<epsilon> = 0\<close> the simplification is not the identity in general: interior points that lie on
  the chord are removed.
\<close>

theorem douglas_peucker_idempotent:
  assumes "0 \<le> epsilon"
  shows "(\<exists>r. simplifyPath epsilon points = Some r \<and> simplifyPath epsilon r = Some r)
    \<and> (\<exists>r. simplifyStroke epsilon points = Some r \<and> simplifyStroke epsilon r = Some r)
    \<and> (length points \<le> 2 \<longrightarrow>
          simplifyPath epsilon points = Some points \<and> simplifyStroke epsilon points = Some points)"
proof (intro conjI impI)
  show "\<exists>r. simplifyPath epsilon points = Some r \<and> simplifyPath epsilon r = Some r"
    using dpGeneric_fixpoint_shape [OF assms, of perpendicularDistance points]
    by (auto simp: simplifyPath_dpGeneric)
  show "\<exists>r. simplifyStroke epsilon points = Some r \<and> simplifyStroke epsilon r = Some r"
    using dpGeneric_fixpoint_shape [OF assms, of strokeDistance0 points]
    by (auto simp: simplifyStroke_dpGeneric [OF assms])
next
  assume "length points \<le> 2"
  then show "simplifyPath epsilon points = Some points"
    by (subst simplifyPath.simps) simp
next
  assume "length points \<le> 2"
  then show "simplifyStroke epsilon points = Some points"
    by (simp add: simplifyStroke_def)
qed

lemmas dp_eval = simplifyPath.simps simplifyStroke_def simplify.simps findMax_def findMaxStep_def
  findMaxDistance_def findMaxDistanceStep_def perpendicularDistance_def strokeDistance_def Let_def

theorem douglas_peucker_idempotent_witness:
  "simplifyPath (1 / 2) [\<lparr>px = 0, py = 0\<rparr>, \<lparr>px = 0, py = 0\<rparr>, \<lparr>px = 1, py = 1\<rparr>, \<lparr>px = 2, py = 0\<rparr>]
     = Some [\<lparr>px = 0, py = 0\<rparr>, \<lparr>px = 1, py = 1\<rparr>, \<lparr>px = 2, py = 0\<rparr>]
   \<and> simplifyPath (1 / 2) [\<lparr>px = 0, py = 0\<rparr>, \<lparr>px = 1, py = 1\<rparr>, \<lparr>px = 2, py = 0\<rparr>]
     = Some [\<lparr>px = 0, py = 0\<rparr>, \<lparr>px = 1, py = 1\<rparr>, \<lparr>px = 2, py = 0\<rparr>]
   \<and> simplifyStroke (1 / 2) [\<lparr>px = 0, py = 0\<rparr>, \<lparr>px = 0, py = 0\<rparr>, \<lparr>px = 1, py = 1\<rparr>, \<lparr>px = 2, py = 0\<rparr>]
     = Some [\<lparr>px = 0, py = 0\<rparr>, \<lparr>px = 1, py = 1\<rparr>, \<lparr>px = 2, py = 0\<rparr>]
   \<and> simplifyStroke (1 / 2) [\<lparr>px = 0, py = 0\<rparr>, \<lparr>px = 1, py = 1\<rparr>, \<lparr>px = 2, py = 0\<rparr>]
     = Some [\<lparr>px = 0, py = 0\<rparr>, \<lparr>px = 1, py = 1\<rparr>, \<lparr>px = 2, py = 0\<rparr>]"
proof -
  have e: "(0::real) \<le> 1 / 2" by simp
  have p: "simplifyPath (1 / 2) [\<lparr>px = 0, py = 0\<rparr>, \<lparr>px = 0, py = 0\<rparr>, \<lparr>px = 1, py = 1\<rparr>, \<lparr>px = 2, py = 0\<rparr>]
     = Some [\<lparr>px = 0, py = 0\<rparr>, \<lparr>px = 1, py = 1\<rparr>, \<lparr>px = 2, py = 0\<rparr>]"
    by (simp add: dp_eval)
  have q: "simplifyStroke (1 / 2) [\<lparr>px = 0, py = 0\<rparr>, \<lparr>px = 0, py = 0\<rparr>, \<lparr>px = 1, py = 1\<rparr>, \<lparr>px = 2, py = 0\<rparr>]
     = Some [\<lparr>px = 0, py = 0\<rparr>, \<lparr>px = 1, py = 1\<rparr>, \<lparr>px = 2, py = 0\<rparr>]"
    by (simp add: dp_eval)
  show ?thesis
    using douglas_peucker_idempotent [OF e,
        of "[\<lparr>px = 0, py = 0\<rparr>, \<lparr>px = 0, py = 0\<rparr>, \<lparr>px = 1, py = 1\<rparr>, \<lparr>px = 2, py = 0\<rparr>]"]
    by (simp add: p q)
qed

text \<open>
  With \<open>\<epsilon> = 0\<close> three collinear points are reduced to the two end points: the largest
  distance is 0, which is not greater than \<open>\<epsilon>\<close>.
\<close>

theorem douglas_peucker_zero_drops_collinear:
  "simplifyPath 0 [\<lparr>px = 0, py = 0\<rparr>, \<lparr>px = 1, py = 0\<rparr>, \<lparr>px = 2, py = 0\<rparr>]
     = Some [\<lparr>px = 0, py = 0\<rparr>, \<lparr>px = 2, py = 0\<rparr>]
   \<and> simplifyStroke 0 [\<lparr>px = 0, py = 0\<rparr>, \<lparr>px = 1, py = 0\<rparr>, \<lparr>px = 2, py = 0\<rparr>]
     = Some [\<lparr>px = 0, py = 0\<rparr>, \<lparr>px = 2, py = 0\<rparr>]"
  by (simp add: dp_eval)

subsection \<open>Endpoint welding\<close>
























































end
